theory Spec2Isabelle
  imports Complex_Main
begin

section \<open>BathingCrow: the scrub detector and the application flags of App.jsx\<close>

text \<open>
  The application is one React tree driven by the browser's event loop. The model keeps
  the state that the components of \<^verbatim>\<open>src/App.jsx\<close> hold (the \<^verbatim>\<open>useState\<close> cells and
  \<^verbatim>\<open>useRef\<close> cells of \<^verbatim>\<open>App\<close> and \<^verbatim>\<open>DraggableSponge\<close>), the pending \<^verbatim>\<open>setTimeout\<close>
  callbacks, and a log of the sound cues played. Every callback of the source is a
  function from state to state; the event loop runs the timers that are due and then
  the callback of the event.

  JavaScript numbers are modelled as \<^typ>\<open>real\<close> (coordinates, times in milliseconds) and
  the scrub counter as \<^typ>\<open>nat\<close>: rounding, infinities and NaN of IEEE doubles are not
  part of the model, except where the threshold of the trigger itself is concerned: there
  lines 107-115 are modelled in double precision.
\<close>

subsection \<open>Data\<close>

type_synonym vec3 = "real \<times> real \<times> real"

text \<open>The two \<^verbatim>\<open>Howl\<close> sounds of lines 10-11.\<close>

datatype sound = splashSound | cawSound

text \<open>
  The two closures handed to \<^verbatim>\<open>setTimeout\<close>: line 121
  (\<^verbatim>\<open>scrubCooldown.current = false\<close>) and lines 203-205 (\<^verbatim>\<open>setDead(true)\<close>).
\<close>

datatype timer_callback = ReleaseCooldown | SetDead

text \<open>
  The mesh that \<^verbatim>\<open>ref\<close> points to (line 134): the fields the frame callback writes,
  and the position that the \<^verbatim>\<open>position\<close> prop sets.
\<close>

record mesh =
  rotation_z :: real
  mesh_position :: vec3

record state =
  scrubs :: nat
  isGlowing :: bool
  showIntro :: bool
  dead :: bool
  dragging :: bool
  position :: vec3
  scrubCooldown :: bool
  ref :: "mesh option"
  cursor :: string
  timers :: "(real \<times> timer_callback) list"
  played :: "sound list"
  tweens :: nat

text \<open>
  The state after the first render: the initial values of lines 84-87 and 183-186.
  \<^verbatim>\<open>timers\<close> holds each pending timeout with the time at which it is due,
  \<^verbatim>\<open>played\<close> the sounds played so far, \<^verbatim>\<open>tweens\<close> the number of calls of
  \<^verbatim>\<open>gsap.fromTo\<close>.
\<close>

definition init :: state where
  "init = \<lparr> scrubs = 0, isGlowing = False, showIntro = True, dead = False,
            dragging = False, position = (1.2, 0.5, 0.6), scrubCooldown = False,
            ref = Some \<lparr> rotation_z = 0, mesh_position = (1.2, 0.5, 0.6) \<rparr>,
            cursor = [], timers = [], played = [], tweens = 0 \<rparr>"

subsection \<open>App: the counter, the glow effect and the intro modal\<close>

text \<open>Lines 196-198: \<^verbatim>\<open>setScrubs((s) => s + 1)\<close>.\<close>

definition handleScrub :: "state \<Rightarrow> state" where
  "handleScrub s = s\<lparr>scrubs := scrubs s + 1\<rparr>"

text \<open>Lines 188-194: the effect that depends on \<^verbatim>\<open>scrubs\<close>.\<close>

definition scrubs_effect :: "state \<Rightarrow> state" where
  "scrubs_effect s =
     (if scrubs s \<ge> 10 then s\<lparr>isGlowing := True, tweens := tweens s + 1\<rparr> else s)"

text \<open>\<^verbatim>\<open>setTimeout(cb, delay)\<close> called at time \<open>now\<close>.\<close>

definition setTimeout :: "real \<Rightarrow> timer_callback \<Rightarrow> real \<Rightarrow> state \<Rightarrow> state" where
  "setTimeout now cb delay s = s\<lparr>timers := timers s @ [(now + delay, cb)]\<rparr>"

text \<open>Lines 200-206. The answer is not read.\<close>

definition handleAnswer :: "real \<Rightarrow> string \<Rightarrow> state \<Rightarrow> state" where
  "handleAnswer now ans s = setTimeout now SetDead 800 (s\<lparr>showIntro := False\<rparr>)"

text \<open>Line 212: the text of the counter in the HUD.\<close>

definition digit_char :: "nat \<Rightarrow> char" where
  "digit_char n = ''0123456789'' ! n"

fun show_nat :: "nat \<Rightarrow> string" where
  "show_nat n = (if n < 10 then [digit_char n] else show_nat (n div 10) @ [digit_char (n mod 10)])"

definition scrub_counter :: "state \<Rightarrow> string" where
  "scrub_counter s = ''Scrubs: '' @ show_nat (scrubs s) @ '' / 10''"

subsection \<open>DraggableSponge: the frame callback and the pointer handlers\<close>

text \<open>Line 107: the dragged position, its height kept between -0.3 and 1.2.\<close>

definition newPos :: "vec3 \<Rightarrow> vec3" where
  "newPos pos = (case pos of (x, y, z) \<Rightarrow> (x, max (- 0.3) (min 1.2 y), z))"

text \<open>Lines 111-114: the distance to the crow's centre \<open>(0, -0.6, 0)\<close>.\<close>

definition dist_crow :: "vec3 \<Rightarrow> real" where
  "dist_crow p = (case p of (x, y, z) \<Rightarrow>
     (let dx = x - 0; dy = y - (- 0.6); dz = z - 0
      in sqrt (dx * dx + dy * dy + dz * dz)))"

text \<open>Line 115: the test \<^verbatim>\<open>dist < 0.9\<close>.\<close>

definition within_radius :: "vec3 \<Rightarrow> bool" where
  "within_radius p = (dist_crow p < 0.9)"

definition play :: "sound \<Rightarrow> state \<Rightarrow> state" where
  "play cue s = s\<lparr>played := played s @ [cue]\<rparr>"

text \<open>
  Lines 115-122, the body of the \<^verbatim>\<open>if\<close>: the trigger. \<open>now\<close> is the time of the frame.
\<close>

definition scrub_trigger :: "real \<Rightarrow> state \<Rightarrow> state" where
  "scrub_trigger now s =
     setTimeout now ReleaseCooldown 350
       (play cawSound (play splashSound (handleScrub (s\<lparr>scrubCooldown := True\<rparr>))))"

text \<open>
  Lines 99-123, the branch for a drag. \<open>pos\<close> is the point that lines 101-105 compute
  with three.js from the pointer and the camera; it is the input of the frame.
  \<^verbatim>\<open>setPosition(newPos)\<close> re-renders the mesh with the new \<^verbatim>\<open>position\<close> prop.
\<close>

definition drag_frame :: "real \<Rightarrow> vec3 \<Rightarrow> state \<Rightarrow> state" where
  "drag_frame now pos s =
     (let np = newPos pos;
          s1 = s\<lparr>position := np, ref := map_option (\<lambda>m. m\<lparr>mesh_position := np\<rparr>) (ref s)\<rparr>
      in if within_radius np \<and> \<not> scrubCooldown s1 then scrub_trigger now s1 else s1)"

text \<open>Line 127: the vertical offset of the idle animation at time \<open>now\<close>.\<close>

definition idle_offset :: "real \<Rightarrow> real" where
  "idle_offset now = sin (now / 700) * 0.02"

text \<open>Lines 125-128, the idle animation of the mesh.\<close>

definition idle_frame :: "real \<Rightarrow> state \<Rightarrow> state" where
  "idle_frame now s =
     (case ref s of
        None \<Rightarrow> s
      | Some m \<Rightarrow>
          (case mesh_position m of (mx, my, mz) \<Rightarrow>
            (case position s of (px, py, pz) \<Rightarrow>
              s\<lparr>ref := Some (m\<lparr>rotation_z := rotation_z m + 0.01,
                                mesh_position := (mx, py + idle_offset now, mz)\<rparr>)\<rparr>)))"

text \<open>Lines 98-129: the callback of \<^verbatim>\<open>useFrame\<close>.\<close>

definition useFrame_callback :: "real \<Rightarrow> vec3 \<Rightarrow> state \<Rightarrow> state" where
  "useFrame_callback now pos s =
     (if dragging s then drag_frame now pos s else idle_frame now s)"

text \<open>Lines 142-144: the pointer handlers of the transparent mesh.\<close>

definition onPointerDown :: "state \<Rightarrow> state" where
  "onPointerDown s = s\<lparr>dragging := True, cursor := ''grabbing''\<rparr>"

definition onPointerUp :: "state \<Rightarrow> state" where
  "onPointerUp s = s\<lparr>dragging := False, cursor := ''auto''\<rparr>"

definition onPointerLeave :: "state \<Rightarrow> state" where
  "onPointerLeave s = s\<lparr>dragging := False, cursor := ''auto''\<rparr>"

subsection \<open>The event loop\<close>

fun run_callback :: "timer_callback \<Rightarrow> state \<Rightarrow> state" where
  "run_callback ReleaseCooldown s = s\<lparr>scrubCooldown := False\<rparr>"
| "run_callback SetDead s = s\<lparr>dead := True\<rparr>"

text \<open>
  The timeouts that are due at time \<open>now\<close> run, the earliest first, and leave the list.
\<close>

definition due :: "real \<Rightarrow> real \<times> timer_callback \<Rightarrow> bool" where
  "due now tm = (fst tm \<le> now)"

definition run_timers :: "real \<Rightarrow> state \<Rightarrow> state" where
  "run_timers now s =
     fold (\<lambda>tm. run_callback (snd tm)) (sort_key fst (filter (due now) (timers s)))
       (s\<lparr>timers := filter (\<lambda>tm. \<not> due now tm) (timers s)\<rparr>)"

text \<open>
  What the user and the browser do: a rendered frame (with the point under the pointer),
  the pointer events of the sponge, and a click on one of the two buttons of the intro
  modal (lines 226-227), which exist only while \<^verbatim>\<open>showIntro\<close> holds (line 220).
\<close>

datatype event = Frame vec3 | PointerDown | PointerUp | PointerLeave | Click string

fun dispatch :: "real \<Rightarrow> event \<Rightarrow> state \<Rightarrow> state" where
  "dispatch now (Frame pos) s = useFrame_callback now pos s"
| "dispatch now PointerDown s = onPointerDown s"
| "dispatch now PointerUp s = onPointerUp s"
| "dispatch now PointerLeave s = onPointerLeave s"
| "dispatch now (Click ans) s = (if showIntro s then handleAnswer now ans s else s)"

text \<open>
  After a callback React renders again and runs the effect of lines 188-194 when
  \<^verbatim>\<open>scrubs\<close> has changed.
\<close>

definition render :: "state \<Rightarrow> state \<Rightarrow> state" where
  "render before s = (if scrubs s \<noteq> scrubs before then scrubs_effect s else s)"

definition step :: "real \<Rightarrow> event \<Rightarrow> state \<Rightarrow> state" where
  "step now e s = (let s1 = run_timers now s in render s1 (dispatch now e s1))"

fun run :: "state \<Rightarrow> (real \<times> event) list \<Rightarrow> state" where
  "run s [] = s"
| "run s ((now, e) # es) = run (step now e s) es"

subsection \<open>The 3D models and their placeholders\<close>

text \<open>
  What a component returns: a loaded scene as a \<^verbatim>\<open>primitive\<close> with its position and its
  scale (when the prop is given), a \<^verbatim>\<open>group\<close> with its position, or a \<^verbatim>\<open>mesh\<close> with
  its position, rotation, geometry and the colour of its material.
\<close>

datatype geometry =
    sphereGeometry real nat nat
  | coneGeometry real real nat
  | planeGeometry real real
  | cylinderGeometry real real real nat

datatype 'scene element =
    Primitive 'scene vec3 "real option"
  | Group vec3 "'scene element list"
  | Mesh vec3 vec3 geometry string

text \<open>
  \<^verbatim>\<open>useGLTF\<close> belongs to a library. It returns the loaded scene or throws: the promise
  of a load that has not finished, or the error of a load that failed. The outcome for
  each path is a parameter of the model.
\<close>

datatype thrown = PendingPromise | LoadError

type_synonym 'scene loader = "string \<Rightarrow> thrown + 'scene"

definition useGLTF :: "'scene loader \<Rightarrow> string \<Rightarrow> thrown + 'scene" where
  "useGLTF ld path = ld path"

text \<open>
  A component returns an element or lets what was thrown escape to the view around it
  (\<open>Inl\<close>). \<^verbatim>\<open>try { ... } catch (e) { ... }\<close>:
\<close>

definition try_catch :: "'e + 'a \<Rightarrow> ('e \<Rightarrow> 'e + 'a) \<Rightarrow> 'e + 'a" where
  "try_catch body handler = (case body of Inl e \<Rightarrow> handler e | Inr v \<Rightarrow> Inr v)"

text \<open>Lines 69-78.\<close>

definition BathtubPlaceholder :: "'scene element" where
  "BathtubPlaceholder =
     Group (0, - 1.1, 0) [Mesh (0, 0, 0) (0, 0, 0) (cylinderGeometry 2.2 2.2 0.6 32) ''#6d87b0ff'']"

text \<open>Lines 172-179.\<close>

definition ModelOrFallback ::
  "'scene loader \<Rightarrow> string \<Rightarrow> 'scene element \<Rightarrow> vec3 \<Rightarrow> thrown + 'scene element" where
  "ModelOrFallback ld path fallback pos =
     try_catch
       (case useGLTF ld path of
          Inl e \<Rightarrow> Inl e
        | Inr gltf_scene \<Rightarrow> Inr (Primitive gltf_scene pos None))
       (\<lambda>e. Inr fallback)"

text \<open>Lines 37-64: the crow of spheres and a cone that the \<^verbatim>\<open>catch\<close> of line 35 returns.\<close>

definition CrowPlaceholder :: "vec3 \<Rightarrow> bool \<Rightarrow> 'scene element" where
  "CrowPlaceholder pos glowing =
     Group pos
       ([Mesh (0, 0, 0) (0, 0, 0) (sphereGeometry 0.6 32 32)
           (if glowing then ''#1e90ff'' else ''#222''),
         Mesh (0.6, - 0.05, 0.1) (0, 0, - 0.4) (coneGeometry 0.18 0.5 16) ''#ffb84d'',
         Mesh (0.25, 0.15, 0.45) (0, 0, 0) (sphereGeometry 0.08 12 12) ''white'',
         Mesh (0.32, 0.15, 0.48) (0, 0, 0) (sphereGeometry 0.04 12 12) ''black'']
        @ (if glowing
           then [Group (0.25, 0.24, 0.45)
                   [Mesh (0, 0, 0) (0, 0, - 0.5) (planeGeometry 0.18 0.05) ''#000'']]
           else []))"

text \<open>
  Lines 14-66. The effect of lines 20-33 changes the materials of the loaded scene after
  the render; it is not part of the element returned.
\<close>

definition CrowModel :: "'scene loader \<Rightarrow> vec3 \<Rightarrow> bool \<Rightarrow> thrown + 'scene element" where
  "CrowModel ld pos glowing =
     try_catch
       (case useGLTF ld ''/models/crow.glb'' of
          Inl e \<Rightarrow> Inl e
        | Inr gltf_scene \<Rightarrow> Inr (Primitive gltf_scene pos (Some 0.9)))
       (\<lambda>e. Inr (CrowPlaceholder pos glowing))"

text \<open>Lines 159-163: the two models of the scene.\<close>

definition Scene_models :: "'scene loader \<Rightarrow> bool \<Rightarrow> (thrown + 'scene element) list" where
  "Scene_models ld glowing =
     [ModelOrFallback ld ''/models/bathtub.glb'' BathtubPlaceholder (0, - 1.1, 0),
      CrowModel ld (0, - 0.6, 0) glowing]"

subsection \<open>The trigger in double precision\<close>

text \<open>
  JavaScript numbers are IEEE 754 binary64, and at the radius itself the test of line 115
  depends on how lines 107-114 round. This is the arithmetic of those lines as the
  engine does it: every decimal literal and every result of an operation, the square
  root included, is the nearest double, ties to the even significand. The coordinates of
  the input point are finite doubles. \<open>exponent x\<close> is the binary exponent of \<open>x\<close>
  (at least -1022, where the subnormal numbers begin), \<open>quantum x\<close> the distance between
  neighbouring doubles there.
\<close>

definition round_even :: "real \<Rightarrow> int" where
  "round_even r =
     (let f = \<lfloor>r\<rfloor>
      in if r - of_int f < 1 / 2 then f
         else if 1 / 2 < r - of_int f then f + 1
         else if even f then f else f + 1)"

definition exponent :: "real \<Rightarrow> int" where
  "exponent x = max (- 1022) \<lfloor>log 2 \<bar>x\<bar>\<rfloor>"

definition quantum :: "real \<Rightarrow> real" where
  "quantum x = 2 powi (exponent x - 52)"

definition nearest :: "real \<Rightarrow> real" where
  "nearest x = (if x = 0 then 0 else of_int (round_even (x / quantum x)) * quantum x)"

text \<open>
  The squares of line 114 and their sums are not negative; when one is too large for a
  double it is \<^verbatim>\<open>Infinity\<close>, and so is its square root.
\<close>

datatype double = Finite real | Infinity

definition to_double :: "real \<Rightarrow> double" where
  "to_double x = (if 2 ^ 1024 \<le> nearest x then Infinity else Finite (nearest x))"

fun add_double :: "double \<Rightarrow> double \<Rightarrow> double" where
  "add_double (Finite a) (Finite b) = to_double (a + b)"
| "add_double a b = Infinity"

fun sqrt_double :: "double \<Rightarrow> double" where
  "sqrt_double (Finite a) = Finite (nearest (sqrt a))"
| "sqrt_double Infinity = Infinity"

fun less_double :: "double \<Rightarrow> real \<Rightarrow> bool" where
  "less_double (Finite a) b = (a < b)"
| "less_double Infinity b = False"

text \<open>Line 107 with the literals as doubles; \<^verbatim>\<open>Math.max\<close> and \<^verbatim>\<open>Math.min\<close> do not round.\<close>

definition newPos_double :: "vec3 \<Rightarrow> vec3" where
  "newPos_double pos =
     (case pos of (x, y, z) \<Rightarrow> (x, max (- nearest 0.3) (min (nearest 1.2) y), z))"

text \<open>Lines 111-114: each difference, product and sum rounded, the sum from the left.\<close>

definition dist_double :: "vec3 \<Rightarrow> double" where
  "dist_double p = (case p of (x, y, z) \<Rightarrow>
     (let dx = nearest (x - 0); dy = nearest (y - (- nearest 0.6)); dz = nearest (z - 0)
      in sqrt_double
           (add_double (add_double (to_double (dx * dx)) (to_double (dy * dy)))
              (to_double (dz * dz)))))"

text \<open>Lines 99-123 and 98-129 with that arithmetic.\<close>

definition drag_frame_double :: "real \<Rightarrow> vec3 \<Rightarrow> state \<Rightarrow> state" where
  "drag_frame_double now pos s =
     (let np = newPos_double pos;
          s1 = s\<lparr>position := np, ref := map_option (\<lambda>m. m\<lparr>mesh_position := np\<rparr>) (ref s)\<rparr>
      in if less_double (dist_double np) (nearest 0.9) \<and> \<not> scrubCooldown s1
         then scrub_trigger now s1 else s1)"

definition useFrame_callback_double :: "real \<Rightarrow> vec3 \<Rightarrow> state \<Rightarrow> state" where
  "useFrame_callback_double now pos s =
     (if dragging s then drag_frame_double now pos s else idle_frame now s)"

subsection \<open>Predicates on states\<close>

text \<open>
  The condition of line 115 together with the test of line 99: the frame with input
  \<open>pos\<close> fires a scrub in state \<open>s\<close>.
\<close>

definition fires :: "vec3 \<Rightarrow> state \<Rightarrow> bool" where
  "fires pos s = (dragging s \<and> within_radius (newPos pos) \<and> \<not> scrubCooldown s)"

text \<open>The height of the sponge lies between -0.3 and 1.2.\<close>

definition height_ok :: "state \<Rightarrow> bool" where
  "height_ok s = (- 0.3 \<le> fst (snd (position s)) \<and> fst (snd (position s)) \<le> 1.2)"

text \<open>
  What an observer samples of the idle animation: the height of the mesh above the
  height of the \<^verbatim>\<open>position\<close> state, when the mesh is attached.
\<close>

definition vertical_offset :: "state \<Rightarrow> real option" where
  "vertical_offset s =
     map_option (\<lambda>m. fst (snd (mesh_position m)) - fst (snd (position s))) (ref s)"

text \<open>The times at which the pending timeouts of line 121 are due.\<close>

definition releases :: "state \<Rightarrow> real list" where
  "releases s = map fst (filter (\<lambda>tm. snd tm = ReleaseCooldown) (timers s))"

text \<open>
  In every state that the application reaches, a cooldown has exactly one release
  pending, and outside a cooldown none is.
\<close>

definition cooldown_inv :: "state \<Rightarrow> bool" where
  "cooldown_inv s = (if scrubCooldown s then length (releases s) = 1 else releases s = [])"

text \<open>The cooldown is active and is not released before time \<open>T\<close>.\<close>

definition cooling :: "real \<Rightarrow> state \<Rightarrow> bool" where
  "cooling T s = (scrubCooldown s \<and> list_all (\<lambda>d. T \<le> d) (releases s))"

text \<open>The times at which the pending timeouts of lines 203-205 are due.\<close>

definition deaths :: "state \<Rightarrow> real list" where
  "deaths s = map fst (filter (\<lambda>tm. snd tm = SetDead) (timers s))"

text \<open>The dead flag is set, or a timeout that sets it is due by time \<open>T\<close>.\<close>

definition dying :: "real \<Rightarrow> state \<Rightarrow> bool" where
  "dying T s = (dead s \<or> list_ex (\<lambda>d. d \<le> T) (deaths s))"

text \<open>The modal is closed and the dead flag is not set before time \<open>T\<close>.\<close>

definition alive_until :: "real \<Rightarrow> state \<Rightarrow> bool" where
  "alive_until T s = (\<not> dead s \<and> \<not> showIntro s \<and> list_all (\<lambda>d. T \<le> d) (deaths s))"

text \<open>While the modal is open the dead flag is not set and no timeout will set it.\<close>

definition intro_inv :: "state \<Rightarrow> bool" where
  "intro_inv s = (\<not> showIntro s \<or> (\<not> dead s \<and> deaths s = []))"

text \<open>The glow flag is set exactly when the counter has reached 10.\<close>

definition glow_inv :: "state \<Rightarrow> bool" where
  "glow_inv s = (isGlowing s = (10 \<le> scrubs s))"

text \<open>
  A sequence of frames, each with its time and its input point, as events; and the
  example of a drag with \<open>n\<close> frames at the point \<open>(0, 0, 0)\<close>, one every 400 ms.
\<close>

definition frames :: "(real \<times> vec3) list \<Rightarrow> (real \<times> event) list" where
  "frames fs = map (\<lambda>f. (fst f, Frame (snd f))) fs"

definition scrubbing :: "nat \<Rightarrow> (real \<times> event) list" where
  "scrubbing n = (0, PointerDown) # frames (map (\<lambda>i. (400 * real i, (0, 0, 0))) [0..<n])"

section \<open>Properties\<close>

subsection \<open>The radius\<close>

text \<open>The test of line 115 without the square root.\<close>

lemma sqrt_lt_09: "sqrt a < 0.9 \<longleftrightarrow> a < 0.81"
proof -
  have "sqrt (0.81::real) = 0.9" by (rule real_sqrt_unique) (simp_all add: power2_eq_square)
  then show ?thesis by (metis real_sqrt_less_iff)
qed

lemma within_radius_iff: "within_radius (x, y, z) \<longleftrightarrow> x * x + (y + 0.6) * (y + 0.6) + z * z < 0.81"
  unfolding within_radius_def dist_crow_def Let_def prod.case sqrt_lt_09 by simp

subsection \<open>Timers\<close>

lemma run_callback_fields [simp]:
  "scrubs (run_callback cb s) = scrubs s"
  "isGlowing (run_callback cb s) = isGlowing s"
  "showIntro (run_callback cb s) = showIntro s"
  "dragging (run_callback cb s) = dragging s"
  "position (run_callback cb s) = position s"
  "ref (run_callback cb s) = ref s"
  "cursor (run_callback cb s) = cursor s"
  "timers (run_callback cb s) = timers s"
  "played (run_callback cb s) = played s"
  "tweens (run_callback cb s) = tweens s"
  "scrubCooldown (run_callback cb s) = (scrubCooldown s \<and> cb \<noteq> ReleaseCooldown)"
  "dead (run_callback cb s) = (dead s \<or> cb = SetDead)"
  by (cases cb; simp)+

lemma fold_callbacks_fields [simp]:
  "scrubs (fold (\<lambda>tm. run_callback (snd tm)) xs s) = scrubs s"
  "isGlowing (fold (\<lambda>tm. run_callback (snd tm)) xs s) = isGlowing s"
  "showIntro (fold (\<lambda>tm. run_callback (snd tm)) xs s) = showIntro s"
  "dragging (fold (\<lambda>tm. run_callback (snd tm)) xs s) = dragging s"
  "position (fold (\<lambda>tm. run_callback (snd tm)) xs s) = position s"
  "ref (fold (\<lambda>tm. run_callback (snd tm)) xs s) = ref s"
  "cursor (fold (\<lambda>tm. run_callback (snd tm)) xs s) = cursor s"
  "timers (fold (\<lambda>tm. run_callback (snd tm)) xs s) = timers s"
  "played (fold (\<lambda>tm. run_callback (snd tm)) xs s) = played s"
  "tweens (fold (\<lambda>tm. run_callback (snd tm)) xs s) = tweens s"
  by (induction xs arbitrary: s; simp)+

lemma fold_callbacks_cooldown:
  "scrubCooldown (fold (\<lambda>tm. run_callback (snd tm)) xs s) =
     (scrubCooldown s \<and> ReleaseCooldown \<notin> snd ` set xs)"
  by (induction xs arbitrary: s) auto

lemma fold_callbacks_dead:
  "dead (fold (\<lambda>tm. run_callback (snd tm)) xs s) = (dead s \<or> SetDead \<in> snd ` set xs)"
  by (induction xs arbitrary: s) auto

lemma run_timers_fields [simp]:
  "scrubs (run_timers now s) = scrubs s"
  "isGlowing (run_timers now s) = isGlowing s"
  "showIntro (run_timers now s) = showIntro s"
  "dragging (run_timers now s) = dragging s"
  "position (run_timers now s) = position s"
  "ref (run_timers now s) = ref s"
  "cursor (run_timers now s) = cursor s"
  "played (run_timers now s) = played s"
  "tweens (run_timers now s) = tweens s"
  "timers (run_timers now s) = filter (\<lambda>tm. \<not> due now tm) (timers s)"
  by (simp_all add: run_timers_def)

lemma run_timers_cooldown:
  "scrubCooldown (run_timers now s) =
     (scrubCooldown s \<and> (\<forall>d. (d, ReleaseCooldown) \<in> set (timers s) \<longrightarrow> now < d))"
  by (force simp: run_timers_def fold_callbacks_cooldown due_def image_iff)

lemma run_timers_dead:
  "dead (run_timers now s) = (dead s \<or> (\<exists>d \<le> now. (d, SetDead) \<in> set (timers s)))"
  by (force simp: run_timers_def fold_callbacks_dead due_def image_iff)

subsection \<open>The frame callback\<close>

lemma newPos_height:
  "fst (snd (newPos pos)) = max (- 0.3) (min 1.2 (fst (snd pos)))"
  by (cases pos) (simp add: newPos_def)

lemma newPos_height_bounds:
  "- 0.3 \<le> fst (snd (newPos pos))" "fst (snd (newPos pos)) \<le> 1.2"
  by (simp_all add: newPos_height)

lemma scrub_trigger_fields [simp]:
  "scrubs (scrub_trigger now s) = scrubs s + 1"
  "played (scrub_trigger now s) = played s @ [splashSound, cawSound]"
  "scrubCooldown (scrub_trigger now s) = True"
  "timers (scrub_trigger now s) = timers s @ [(now + 350, ReleaseCooldown)]"
  "isGlowing (scrub_trigger now s) = isGlowing s"
  "showIntro (scrub_trigger now s) = showIntro s"
  "dead (scrub_trigger now s) = dead s"
  "dragging (scrub_trigger now s) = dragging s"
  "position (scrub_trigger now s) = position s"
  "ref (scrub_trigger now s) = ref s"
  "cursor (scrub_trigger now s) = cursor s"
  "tweens (scrub_trigger now s) = tweens s"
  by (simp_all add: scrub_trigger_def setTimeout_def play_def handleScrub_def)

lemma useFrame_fires:
  assumes "fires pos s"
  shows "useFrame_callback now pos s =
           scrub_trigger now (s\<lparr>position := newPos pos,
              ref := map_option (\<lambda>m. m\<lparr>mesh_position := newPos pos\<rparr>) (ref s)\<rparr>)"
  using assms by (simp add: fires_def useFrame_callback_def drag_frame_def Let_def)

lemma useFrame_quiet:
  assumes "\<not> fires pos s"
  shows "scrubs (useFrame_callback now pos s) = scrubs s"
    and "played (useFrame_callback now pos s) = played s"
    and "scrubCooldown (useFrame_callback now pos s) = scrubCooldown s"
    and "timers (useFrame_callback now pos s) = timers s"
  using assms
  by (auto simp: fires_def useFrame_callback_def drag_frame_def idle_frame_def Let_def
      split: option.splits prod.splits)

lemma useFrame_flags [simp]:
  "isGlowing (useFrame_callback now pos s) = isGlowing s"
  "showIntro (useFrame_callback now pos s) = showIntro s"
  "dead (useFrame_callback now pos s) = dead s"
  "dragging (useFrame_callback now pos s) = dragging s"
  "cursor (useFrame_callback now pos s) = cursor s"
  "tweens (useFrame_callback now pos s) = tweens s"
  by (auto simp: useFrame_callback_def drag_frame_def idle_frame_def Let_def
      split: option.splits prod.splits)

lemma useFrame_position:
  "position (useFrame_callback now pos s) = (if dragging s then newPos pos else position s)"
  by (auto simp: useFrame_callback_def drag_frame_def idle_frame_def Let_def
      split: option.splits prod.splits)

lemma useFrame_scrubs:
  "scrubs (useFrame_callback now pos s) = (if fires pos s then scrubs s + 1 else scrubs s)"
  by (simp add: useFrame_fires useFrame_quiet)

lemmas eval_defs =
  init_def step_def run_timers_def due_def render_def scrubs_effect_def
  useFrame_callback_def drag_frame_def idle_frame_def idle_offset_def newPos_def
  within_radius_iff scrub_trigger_def setTimeout_def play_def handleScrub_def
  onPointerDown_def onPointerUp_def onPointerLeave_def handleAnswer_def Let_def

subsection \<open>Events and steps\<close>

lemma render_fields [simp]:
  "scrubs (render b s) = scrubs s"
  "showIntro (render b s) = showIntro s"
  "dead (render b s) = dead s"
  "dragging (render b s) = dragging s"
  "position (render b s) = position s"
  "scrubCooldown (render b s) = scrubCooldown s"
  "ref (render b s) = ref s"
  "cursor (render b s) = cursor s"
  "timers (render b s) = timers s"
  "played (render b s) = played s"
  by (simp_all add: render_def scrubs_effect_def)

lemma render_isGlowing:
  "isGlowing (render b s) = (isGlowing s \<or> (scrubs s \<noteq> scrubs b \<and> 10 \<le> scrubs s))"
  by (simp add: render_def scrubs_effect_def)

lemma dispatch_scrubs:
  "scrubs (dispatch now e s) =
     (case e of Frame pos \<Rightarrow> if fires pos s then scrubs s + 1 else scrubs s | _ \<Rightarrow> scrubs s)"
  by (cases e)
     (simp_all add: useFrame_scrubs onPointerDown_def onPointerUp_def onPointerLeave_def
        handleAnswer_def setTimeout_def)

lemma dispatch_isGlowing [simp]: "isGlowing (dispatch now e s) = isGlowing s"
  by (cases e)
     (simp_all add: onPointerDown_def onPointerUp_def onPointerLeave_def
        handleAnswer_def setTimeout_def)

lemma dispatch_dead [simp]: "dead (dispatch now e s) = dead s"
  by (cases e)
     (simp_all add: onPointerDown_def onPointerUp_def onPointerLeave_def
        handleAnswer_def setTimeout_def)

lemma dispatch_position:
  "position (dispatch now e s) =
     (case e of Frame pos \<Rightarrow> if dragging s then newPos pos else position s | _ \<Rightarrow> position s)"
  by (cases e)
     (simp_all add: useFrame_position onPointerDown_def onPointerUp_def onPointerLeave_def
        handleAnswer_def setTimeout_def)

lemma step_scrubs:
  "scrubs (step now e s) =
     (case e of Frame pos \<Rightarrow> if fires pos (run_timers now s) then scrubs s + 1 else scrubs s
      | _ \<Rightarrow> scrubs s)"
  by (simp add: step_def Let_def dispatch_scrubs split: event.splits)

lemma step_position:
  "position (step now e s) =
     (case e of Frame pos \<Rightarrow> if dragging s then newPos pos else position s | _ \<Rightarrow> position s)"
  by (simp add: step_def Let_def dispatch_position split: event.splits)

lemma step_isGlowing:
  "isGlowing (step now e s) = (isGlowing s \<or> (scrubs (step now e s) \<noteq> scrubs s \<and> 10 \<le> scrubs (step now e s)))"
  by (simp add: step_def Let_def render_isGlowing)

subsection \<open>The height of the sponge\<close>

lemma height_ok_step: "height_ok s \<Longrightarrow> height_ok (step now e s)"
  using newPos_height_bounds by (cases e) (simp_all add: height_ok_def step_position)

lemma height_ok_run: "height_ok s \<Longrightarrow> height_ok (run s es)"
  by (induction es arbitrary: s) (auto simp: height_ok_step)

lemma height_ok_init: "height_ok init"
  by (simp add: height_ok_def init_def)

text \<open>
  Claim C9. In every frame of a drag the height of the new position is the pointer's
  height clamped to the interval from -0.3 to 1.2, and that is the position stored; the
  initial height is 0.5 and only a drag frame stores a position, so in every state that
  a sequence of events reaches from the initial state the height lies in the interval.
\<close>

theorem sponge_height_clamped:
  "(dragging s \<longrightarrow>
      fst (snd (position (useFrame_callback now pos s))) = max (- 0.3) (min 1.2 (fst (snd pos))) \<and>
      - 0.3 \<le> fst (snd (position (useFrame_callback now pos s))) \<and>
      fst (snd (position (useFrame_callback now pos s))) \<le> 1.2) \<and>
   - 0.3 \<le> fst (snd (position (run init es))) \<and>
   fst (snd (position (run init es))) \<le> 1.2"
proof -
  have "height_ok (run init es)"
    by (rule height_ok_run [OF height_ok_init])
  moreover have "dragging s \<Longrightarrow>
      fst (snd (position (useFrame_callback now pos s))) = max (- 0.3) (min 1.2 (fst (snd pos)))"
    by (simp only: useFrame_position newPos_height if_True)
  moreover have "dragging s \<Longrightarrow> - 0.3 \<le> fst (snd (position (useFrame_callback now pos s)))"
    using newPos_height_bounds(1) by (simp only: useFrame_position if_True)
  moreover have "dragging s \<Longrightarrow> fst (snd (position (useFrame_callback now pos s))) \<le> 1.2"
    using newPos_height_bounds(2) by (simp only: useFrame_position if_True)
  ultimately show ?thesis
    unfolding height_ok_def by blast
qed

theorem sponge_height_clamped_witness:
  "dragging (onPointerDown init) \<and>
   fst (snd (position (useFrame_callback 0 (2, 5, 1) (onPointerDown init)))) = 1.2 \<and>
   fst (snd (position (run init [(0, PointerDown), (16, Frame (2, - 7, 1))]))) = - 0.3"
  using sponge_height_clamped [of "onPointerDown init" 0 "(2, 5, 1)" "[(0, PointerDown), (16, Frame (2, - 7, 1))]"]
  by (simp add: eval_defs)

subsection \<open>Rounding to the nearest double\<close>

lemma round_even_eqI:
  assumes "\<bar>r - of_int m\<bar> < 1 / 2"
  shows "round_even r = m"
proof -
  have lo: "of_int m - 1 / 2 < r" and hi: "r < of_int m + 1 / 2"
    using assms by linarith+
  show ?thesis
  proof (cases "of_int m \<le> r")
    case True
    then have f: "\<lfloor>r\<rfloor> = m"
      using hi by (simp add: floor_eq_iff)
    show ?thesis
      using hi by (simp add: round_even_def f)
  next
    case False
    then have f: "\<lfloor>r\<rfloor> = m - 1"
      using lo by (simp add: floor_eq_iff)
    show ?thesis
      using lo False by (simp add: round_even_def f)
  qed
qed

lemma round_even_tie:
  assumes "r = of_int f + 1 / 2"
  shows "round_even r = (if even f then f else f + 1)"
proof -
  have "\<lfloor>r\<rfloor> = f"
    by (simp add: assms floor_eq_iff)
  then show ?thesis
    by (simp add: round_even_def assms)
qed

lemma exponent_eqI:
  assumes "- 1022 \<le> k" and "2 powi k \<le> \<bar>x\<bar>" and "\<bar>x\<bar> < 2 powi (k + 1)"
  shows "exponent x = k"
proof -
  have pos: "0 < \<bar>x\<bar>"
    using assms(2) by (smt (verit) zero_less_power_int)
  have p: "2 powr real_of_int j = 2 powi j" for j
    by (simp add: powr_real_of_int')
  have "2 powr real_of_int k \<le> \<bar>x\<bar>" and "\<bar>x\<bar> < 2 powr (real_of_int k + 1)"
    using assms(2,3) p [of k] p [of "k + 1"] by simp_all
  then have "\<lfloor>log 2 \<bar>x\<bar>\<rfloor> = k"
    using pos by (simp add: floor_log_eq_powr_iff)
  then show ?thesis
    using assms(1) by (simp add: exponent_def)
qed

lemma nearest_eqI:
  assumes "- 1022 \<le> k" and "2 powi k \<le> \<bar>x\<bar>" and "\<bar>x\<bar> < 2 powi (k + 1)"
    and "\<bar>x / 2 powi (k - 52) - of_int m\<bar> < 1 / 2"
  shows "nearest x = of_int m * 2 powi (k - 52)"
proof -
  have "x \<noteq> 0"
    using assms(2) by (smt (verit) zero_less_power_int)
  then show ?thesis
    by (simp add: nearest_def quantum_def exponent_eqI [OF assms(1-3)] round_even_eqI [OF assms(4)])
qed

lemma nearest_tieI:
  assumes "- 1022 \<le> k" and "2 powi k \<le> \<bar>x\<bar>" and "\<bar>x\<bar> < 2 powi (k + 1)"
    and "x / 2 powi (k - 52) = of_int f + 1 / 2"
  shows "nearest x = of_int (if even f then f else f + 1) * 2 powi (k - 52)"
proof -
  have "x \<noteq> 0"
    using assms(2) by (smt (verit) zero_less_power_int)
  then show ?thesis
    by (simp only: nearest_def quantum_def exponent_eqI [OF assms(1-3)] round_even_tie [OF assms(4)]
        if_False)
qed

lemma nearest_sqrtI:
  assumes "- 1022 \<le> k" and "0 < m"
    and "(2 powi k)\<^sup>2 \<le> a" and "a < (2 powi (k + 1))\<^sup>2"
    and "((of_int m - 1 / 2) * 2 powi (k - 52))\<^sup>2 < a"
    and "a < ((of_int m + 1 / 2) * 2 powi (k - 52))\<^sup>2"
  shows "nearest (sqrt a) = of_int m * 2 powi (k - 52)"
proof -
  have q: "0 < (2 :: real) powi j" for j
    by (rule zero_less_power_int) simp
  have m: "1 \<le> real_of_int m"
    using assms(2) by simp
  have a: "0 \<le> sqrt a"
    using assms(3) by (smt (verit) real_sqrt_ge_zero zero_le_power2)
  have lo: "2 powi k \<le> sqrt a"
    by (rule real_le_rsqrt [OF assms(3)])
  have hi: "sqrt a < 2 powi (k + 1)"
    by (rule real_less_lsqrt [OF less_imp_le [OF q] assms(4)])
  have l: "(of_int m - 1 / 2) * 2 powi (k - 52) < sqrt a"
    by (rule real_less_rsqrt [OF assms(5)])
  have "0 \<le> (of_int m + 1 / 2) * (2 :: real) powi (k - 52)"
    using m q [of "k - 52"] by simp
  then have u: "sqrt a < (of_int m + 1 / 2) * 2 powi (k - 52)"
    by (rule real_less_lsqrt [OF _ assms(6)])
  have "of_int m - 1 / 2 < sqrt a / 2 powi (k - 52)"
    and "sqrt a / 2 powi (k - 52) < of_int m + 1 / 2"
    using l u q [of "k - 52"] by (simp_all add: pos_less_divide_eq pos_divide_less_eq)
  then have "\<bar>sqrt a / 2 powi (k - 52) - of_int m\<bar> < 1 / 2"
    by linarith
  then show ?thesis
    using nearest_eqI [OF assms(1), of "sqrt a" m] lo hi a by simp
qed

lemma round_even_ge:
  assumes "of_int n \<le> r"
  shows "n \<le> round_even r"
proof -
  have "n \<le> \<lfloor>r\<rfloor>"
    using assms by (simp add: le_floor_iff)
  then show ?thesis
    by (auto simp: round_even_def Let_def)
qed

lemma round_even_le:
  assumes "r \<le> of_int n"
  shows "round_even r \<le> n"
proof (cases "r = of_int n")
  case True
  then show ?thesis
    by (simp add: round_even_def)
next
  case False
  then have "r < of_int n"
    using assms by simp
  then have "\<lfloor>r\<rfloor> < n"
    by (simp add: floor_less_iff)
  then show ?thesis
    by (auto simp: round_even_def Let_def)
qed

lemma round_even_mono:
  assumes "r \<le> r'"
  shows "round_even r \<le> round_even r'"
proof (cases "\<lfloor>r\<rfloor> = \<lfloor>r'\<rfloor>")
  case True
  then show ?thesis
    using assms by (auto simp: round_even_def Let_def)
next
  case False
  then have "\<lfloor>r\<rfloor> + 1 \<le> \<lfloor>r'\<rfloor>"
    using floor_mono [OF assms] by simp
  moreover have "round_even r \<le> \<lfloor>r\<rfloor> + 1"
    by (auto simp: round_even_def Let_def)
  moreover have "\<lfloor>r'\<rfloor> \<le> round_even r'"
    by (auto simp: round_even_def Let_def)
  ultimately show ?thesis
    by linarith
qed

lemma pow2_pos: "0 < (2 :: real) powi j"
  by (rule zero_less_power_int) simp

lemma powr_powi: "2 powr real_of_int j = (2 :: real) powi j"
  by (simp add: powr_real_of_int')

lemma pow2_add: "(2 :: real) powi i * 2 powi j = 2 powi (i + j)"
  by (simp add: power_int_add)

lemma pow2_mono: "i \<le> j \<Longrightarrow> (2 :: real) powi i \<le> 2 powi j"
  by (rule power_int_increasing) simp_all

lemma exponent_upper:
  assumes "0 < x"
  shows "x < 2 powi (exponent x + 1)"
proof -
  have "log 2 x < of_int (\<lfloor>log 2 x\<rfloor> + 1)"
    by linarith
  then have "x < 2 powr of_int (\<lfloor>log 2 x\<rfloor> + 1)"
    by (rule iffD1 [OF log_less_iff [OF _ assms], rotated]) simp
  then have "x < 2 powi (\<lfloor>log 2 x\<rfloor> + 1)"
    by (simp only: powr_powi)
  also have "\<dots> \<le> 2 powi (exponent x + 1)"
    using assms by (intro pow2_mono) (simp add: exponent_def)
  finally show ?thesis .
qed

lemma exponent_lower:
  assumes "0 < x" and "- 1022 < exponent x"
  shows "2 powi exponent x \<le> x"
proof -
  have e: "exponent x = \<lfloor>log 2 x\<rfloor>"
    using assms by (simp add: exponent_def max_def split: if_splits)
  have "of_int \<lfloor>log 2 x\<rfloor> \<le> log 2 x"
    by simp
  then have "2 powr of_int \<lfloor>log 2 x\<rfloor> \<le> x"
    by (rule iffD1 [OF le_log_iff [OF _ assms(1)], rotated]) simp
  then show ?thesis
    by (simp only: e powr_powi)
qed

lemma exponent_mono:
  assumes "0 < x" and "x \<le> y"
  shows "exponent x \<le> exponent y"
proof -
  have "log 2 x \<le> log 2 y"
    using assms by simp
  then have "\<lfloor>log 2 x\<rfloor> \<le> \<lfloor>log 2 y\<rfloor>"
    by (rule floor_mono)
  then show ?thesis
    using assms by (simp add: exponent_def)
qed

lemma nearest_upper:
  assumes "0 < x"
  shows "nearest x \<le> 2 powi (exponent x + 1)"
proof -
  let ?q = "(2 :: real) powi (exponent x - 52)"
  have "53 + (exponent x - 52) = exponent x + 1"
    by simp
  then have k: "2 powi 53 * ?q = 2 powi (exponent x + 1)"
    unfolding pow2_add by (rule arg_cong)
  have "x / ?q \<le> 2 powi (exponent x + 1) / ?q"
    by (rule divide_right_mono [OF less_imp_le [OF exponent_upper [OF assms]]
          less_imp_le [OF pow2_pos]])
  also have "2 powi (exponent x + 1) / ?q = (2 :: real) powi 53"
    unfolding k [symmetric] using pow2_pos [of "exponent x - 52"] by simp
  also have "\<dots> = of_int (2 ^ 53)"
    by simp
  finally have "round_even (x / ?q) \<le> 2 ^ 53"
    by (rule round_even_le)
  then have "real_of_int (round_even (x / ?q)) \<le> real_of_int (2 ^ 53)"
    by (simp only: of_int_le_iff)
  also have "real_of_int (2 ^ 53) = 2 powi 53"
    by simp
  finally have "of_int (round_even (x / ?q)) * ?q \<le> 2 powi 53 * ?q"
    by (rule mult_right_mono) (rule less_imp_le [OF pow2_pos])
  then have "of_int (round_even (x / ?q)) * ?q \<le> 2 powi (exponent x + 1)"
    unfolding k .
  moreover have "nearest x = of_int (round_even (x / ?q)) * ?q"
    using assms by (simp add: nearest_def quantum_def)
  ultimately show ?thesis
    by simp
qed

lemma nearest_lower:
  assumes "0 < x" and "- 1022 < exponent x"
  shows "2 powi exponent x \<le> nearest x"
proof -
  let ?q = "(2 :: real) powi (exponent x - 52)"
  have "52 + (exponent x - 52) = exponent x"
    by simp
  then have k: "2 powi 52 * ?q = 2 powi exponent x"
    unfolding pow2_add by (rule arg_cong)
  have "(2 :: real) powi 52 = 2 powi exponent x / ?q"
    unfolding k [symmetric] using pow2_pos [of "exponent x - 52"] by simp
  also have "\<dots> \<le> x / ?q"
    by (rule divide_right_mono [OF exponent_lower [OF assms] less_imp_le [OF pow2_pos]])
  finally have "of_int (2 ^ 52) \<le> x / ?q"
    by simp
  then have "2 ^ 52 \<le> round_even (x / ?q)"
    by (rule round_even_ge)
  then have "real_of_int (2 ^ 52) \<le> real_of_int (round_even (x / ?q))"
    by (simp only: of_int_le_iff)
  moreover have "real_of_int (2 ^ 52) = 2 powi 52"
    by simp
  ultimately have "2 powi 52 \<le> real_of_int (round_even (x / ?q))"
    by simp
  then have "2 powi 52 * ?q \<le> of_int (round_even (x / ?q)) * ?q"
    by (rule mult_right_mono) (rule less_imp_le [OF pow2_pos])
  then have "2 powi exponent x \<le> of_int (round_even (x / ?q)) * ?q"
    unfolding k .
  moreover have "nearest x = of_int (round_even (x / ?q)) * ?q"
    using assms by (simp add: nearest_def quantum_def)
  ultimately show ?thesis
    by simp
qed

lemma nearest_nonneg:
  assumes "0 \<le> x"
  shows "0 \<le> nearest x"
proof (cases "x = 0")
  case True
  then show ?thesis
    by (simp add: nearest_def)
next
  case False
  have "0 \<le> x / quantum x"
    using assms pow2_pos [of "exponent x - 52"] by (simp add: quantum_def)
  then have "0 \<le> round_even (x / quantum x)"
    using round_even_ge [of 0] by simp
  then show ?thesis
    using False pow2_pos [of "exponent x - 52"] by (simp add: nearest_def quantum_def)
qed

lemma nearest_mono:
  assumes "0 \<le> x" and "x \<le> y"
  shows "nearest x \<le> nearest y"
proof (cases "x = 0")
  case True
  then show ?thesis
    using nearest_nonneg [of y] assms by (simp add: nearest_def)
next
  case False
  then have x: "0 < x" and y: "0 < y"
    using assms by simp_all
  have e: "exponent x \<le> exponent y"
    by (rule exponent_mono [OF x assms(2)])
  show ?thesis
  proof (cases "exponent x = exponent y")
    case True
    let ?q = "(2 :: real) powi (exponent y - 52)"
    have "x / ?q \<le> y / ?q"
      by (rule divide_right_mono [OF assms(2) less_imp_le [OF pow2_pos]])
    then have "round_even (x / ?q) \<le> round_even (y / ?q)"
      by (rule round_even_mono)
    then have "of_int (round_even (x / ?q)) * ?q \<le> of_int (round_even (y / ?q)) * ?q"
      using pow2_pos [of "exponent y - 52"] by (simp only: mult_le_cancel_right_pos of_int_le_iff)
    then show ?thesis
      using x y by (simp add: nearest_def quantum_def True)
  next
    case False
    then have lt: "exponent x + 1 \<le> exponent y"
      using e by simp
    have "- 1022 \<le> exponent x"
      by (simp add: exponent_def)
    then have "- 1022 < exponent y"
      using lt by simp
    then have "2 powi exponent y \<le> nearest y"
      by (rule nearest_lower [OF y])
    moreover have "nearest x \<le> 2 powi (exponent x + 1)"
      by (rule nearest_upper [OF x])
    moreover have "(2 :: real) powi (exponent x + 1) \<le> 2 powi exponent y"
      by (rule pow2_mono [OF lt])
    ultimately show ?thesis
      by linarith
  qed
qed

subsection \<open>The threshold of the trigger\<close>

text \<open>The literals of lines 107-115 as doubles.\<close>

lemma nearest_03: "nearest 0.3 = 5404319552844595 / 2 ^ 54"
  using nearest_eqI [of "- 2" "0.3" 5404319552844595] by (simp add: power_int_minus)

lemma nearest_06: "nearest 0.6 = 5404319552844595 / 2 ^ 53"
  using nearest_eqI [of "- 1" "0.6" 5404319552844595] by (simp add: power_int_minus)

lemma nearest_09: "nearest 0.9 = 8106479329266893 / 2 ^ 53"
  using nearest_eqI [of "- 1" "0.9" 8106479329266893] by (simp add: power_int_minus)

lemma nearest_12: "nearest 1.2 = 5404319552844595 / 2 ^ 52"
  using nearest_eqI [of 0 "1.2" 5404319552844595] by (simp add: power_int_minus)

text \<open>The pointer's point at the crow's centre: the sponge is stored 0.3 above it.\<close>

lemma dy_at_target: "nearest (- (5404319552844595 / 2 ^ 54) + 5404319552844595 / 2 ^ 53) = 5404319552844595 / 2 ^ 54"
  using nearest_eqI [of "- 2" "- (5404319552844595 / 2 ^ 54) + 5404319552844595 / 2 ^ 53" 5404319552844595]
  by (simp add: power_int_minus)

lemma sq_at_target:
  "nearest (5404319552844595 / 2 ^ 54 * (5404319552844595 / 2 ^ 54)) = 3242591731706757 / 2 ^ 55"
  using nearest_eqI [of "- 4" "5404319552844595 / 2 ^ 54 * (5404319552844595 / 2 ^ 54)" 6485183463413514]
  by (simp add: power_int_minus)

lemma sq_at_target_exact: "nearest (3242591731706757 / 2 ^ 55) = 3242591731706757 / 2 ^ 55"
  using nearest_eqI [of "- 4" "3242591731706757 / 2 ^ 55" 6485183463413514]
  by (simp add: power_int_minus)

lemma sqrt_at_target: "nearest (sqrt (3242591731706757 / 2 ^ 55)) = 5404319552844595 / 2 ^ 54"
  using nearest_sqrtI [of "- 2" 5404319552844595 "3242591731706757 / 2 ^ 55"]
  by (simp add: power_int_minus power2_eq_square)

lemma nearest_0 [simp]: "nearest 0 = 0"
  by (simp add: nearest_def)

text \<open>The distance of a point on the vertical axis, step by step.\<close>

lemma dist_double_axis:
  assumes "nearest (y + nearest 0.6) = dy" and "nearest (dy * dy) = sq" and "sq < 2 ^ 1024"
    and "nearest sq = sq" and "nearest (sqrt sq) = d"
  shows "dist_double (0, y, 0) = Finite d"
  using assms by (simp add: dist_double_def to_double_def)

lemma newPos_double_target:
  "newPos_double (0, - nearest 0.6, 0) = (0, - nearest 0.3, 0)"
  unfolding newPos_double_def nearest_03 nearest_06 nearest_12 by simp

lemma dist_double_target: "dist_double (0, - nearest 0.3, 0) = Finite (nearest 0.3)"
proof (rule dist_double_axis)
  show "nearest (- nearest 0.3 + nearest 0.6) = 5404319552844595 / 2 ^ 54"
    unfolding nearest_03 nearest_06 by (rule dy_at_target)
  show "nearest (5404319552844595 / 2 ^ 54 * (5404319552844595 / 2 ^ 54)) = 3242591731706757 / 2 ^ 55"
    by (rule sq_at_target)
  show "(3242591731706757 / 2 ^ 55 :: real) < 2 ^ 1024"
    by simp
  show "nearest (3242591731706757 / 2 ^ 55) = 3242591731706757 / 2 ^ 55"
    by (rule sq_at_target_exact)
  show "nearest (sqrt (3242591731706757 / 2 ^ 55)) = nearest 0.3"
    unfolding nearest_03 by (rule sqrt_at_target)
qed

text \<open>
  The sponge 0.3 above the plane of the tub: the sum 0.3 + 0.6 falls halfway between two
  doubles and rounds to the one below 0.9.
\<close>

lemma dist_double_below:
  "dist_double (0, nearest 0.3, 0) = Finite (nearest 0.9 - 1 / 2 ^ 53)"
proof (rule dist_double_axis)
  show "nearest (nearest 0.3 + nearest 0.6) = 8106479329266892 / 2 ^ 53"
    unfolding nearest_03 nearest_06
    using nearest_tieI [of "- 1" "5404319552844595 / 2 ^ 54 + 5404319552844595 / 2 ^ 53"
        8106479329266892]
    by (simp add: power_int_minus)
  show "nearest (8106479329266892 / 2 ^ 53 * (8106479329266892 / 2 ^ 53)) = 7295831396340202 / 2 ^ 53"
    using nearest_eqI [of "- 1" "8106479329266892 / 2 ^ 53 * (8106479329266892 / 2 ^ 53)"
        7295831396340202]
    by (simp add: power_int_minus)
  show "(7295831396340202 / 2 ^ 53 :: real) < 2 ^ 1024"
    by simp
  show "nearest (7295831396340202 / 2 ^ 53) = 7295831396340202 / 2 ^ 53"
    using nearest_eqI [of "- 1" "7295831396340202 / 2 ^ 53" 7295831396340202]
    by (simp add: power_int_minus)
  show "nearest (sqrt (7295831396340202 / 2 ^ 53)) = nearest 0.9 - 1 / 2 ^ 53"
    unfolding nearest_09
    using nearest_sqrtI [of "- 1" 8106479329266892 "7295831396340202 / 2 ^ 53"]
    by (simp add: power_int_minus power2_eq_square)
qed

text \<open>One double higher the sum is the double of 0.9 itself, and so is the distance.\<close>

lemma dist_double_at:
  "dist_double (0, nearest 0.3 + 1 / 2 ^ 54, 0) = Finite (nearest 0.9)"
proof (rule dist_double_axis)
  show "nearest (nearest 0.3 + 1 / 2 ^ 54 + nearest 0.6) = 8106479329266893 / 2 ^ 53"
    unfolding nearest_03 nearest_06
    using nearest_eqI [of "- 1" "5404319552844595 / 2 ^ 54 + 1 / 2 ^ 54 + 5404319552844595 / 2 ^ 53"
        8106479329266893]
    by (simp add: power_int_minus)
  show "nearest (8106479329266893 / 2 ^ 53 * (8106479329266893 / 2 ^ 53)) = 7295831396340204 / 2 ^ 53"
    using nearest_eqI [of "- 1" "8106479329266893 / 2 ^ 53 * (8106479329266893 / 2 ^ 53)"
        7295831396340204]
    by (simp add: power_int_minus)
  show "(7295831396340204 / 2 ^ 53 :: real) < 2 ^ 1024"
    by simp
  show "nearest (7295831396340204 / 2 ^ 53) = 7295831396340204 / 2 ^ 53"
    using nearest_eqI [of "- 1" "7295831396340204 / 2 ^ 53" 7295831396340204]
    by (simp add: power_int_minus)
  show "nearest (sqrt (7295831396340204 / 2 ^ 53)) = nearest 0.9"
    unfolding nearest_09
    using nearest_sqrtI [of "- 1" 8106479329266893 "7295831396340204 / 2 ^ 53"]
    by (simp add: power_int_minus power2_eq_square)
qed

lemma newPos_double_inside:
  assumes "- nearest 0.3 \<le> y" and "y \<le> nearest 1.2"
  shows "newPos_double (x, y, z) = (x, y, z)"
  using assms by (simp add: newPos_double_def)

text \<open>Lower bounds through the rounded operations; \<^verbatim>\<open>Infinity\<close> is above every bound.\<close>

lemma to_double_lower:
  assumes "b \<le> nearest a"
  shows "\<not> less_double (to_double a) b"
  using assms by (simp add: to_double_def)

lemma add_double_lower:
  assumes "\<not> less_double u 0" and "\<not> less_double v b" and "0 \<le> b"
  shows "\<not> less_double (add_double u v) (nearest b)" and "\<not> less_double (add_double v u) (nearest b)"
proof -
  have "\<not> less_double (add_double u v) (nearest b) \<and> \<not> less_double (add_double v u) (nearest b)"
  proof (cases u)
    case Infinity
    then show ?thesis
      by (cases v) simp_all
  next
    case (Finite a)
    show ?thesis
    proof (cases v)
      case Infinity
      then show ?thesis
        by (simp add: Finite)
    next
      case (Finite c)
      have "b \<le> a + c"
        using assms(1,2) \<open>u = Finite a\<close> Finite by simp
      then have "nearest b \<le> nearest (a + c)"
        by (rule nearest_mono [OF assms(3)])
      then show ?thesis
        using to_double_lower [of "nearest b" "a + c"]
        by (simp add: \<open>u = Finite a\<close> Finite add.commute)
    qed
  qed
  then show "\<not> less_double (add_double u v) (nearest b)"
    and "\<not> less_double (add_double v u) (nearest b)"
    by simp_all
qed

lemma sqrt_double_lower:
  assumes "\<not> less_double u b" and "0 \<le> b"
  shows "\<not> less_double (sqrt_double u) (nearest (sqrt b))"
proof (cases u)
  case Infinity
  then show ?thesis
    by simp
next
  case (Finite a)
  then have "sqrt b \<le> sqrt a"
    using assms(1) by simp
  moreover have "0 \<le> sqrt b"
    using assms(2) by simp
  ultimately have "nearest (sqrt b) \<le> nearest (sqrt a)"
    by (rule nearest_mono [rotated])
  then show ?thesis
    by (simp add: Finite)
qed

text \<open>
  The clamp keeps the sponge at least the double of 0.3 above the crow's centre, and
  rounding never brings the distance below that.
\<close>

lemma dist_double_lower: "\<not> less_double (dist_double (newPos_double pos)) (nearest 0.3)"
proof -
  obtain x y z where pos: "pos = (x, y, z)"
    by (cases pos) auto
  define y' where "y' = max (- nearest 0.3) (min (nearest 1.2) y)"
  define dx where "dx = nearest (x - 0)"
  define dy where "dy = nearest (y' - (- nearest 0.6))"
  define dz where "dz = nearest (z - 0)"
  let ?a = "5404319552844595 / 2 ^ 54 :: real"
  let ?s = "3242591731706757 / 2 ^ 55 :: real"
  have "- nearest 0.3 + nearest 0.6 \<le> y' - (- nearest 0.6)"
    by (simp add: y'_def)
  moreover have "0 \<le> - nearest 0.3 + nearest 0.6"
    unfolding nearest_03 nearest_06 by simp
  ultimately have "nearest (- nearest 0.3 + nearest 0.6) \<le> dy"
    unfolding dy_def by (rule nearest_mono [rotated])
  then have dy: "?a \<le> dy"
    unfolding nearest_03 nearest_06 dy_at_target .
  then have "?a * ?a \<le> dy * dy"
    by (intro mult_mono) simp_all
  then have "nearest (?a * ?a) \<le> nearest (dy * dy)"
    by (intro nearest_mono) simp_all
  then have "?s \<le> nearest (dy * dy)"
    unfolding sq_at_target .
  then have sy: "\<not> less_double (to_double (dy * dy)) ?s"
    by (rule to_double_lower)
  have sx: "\<not> less_double (to_double (dx * dx)) 0"
    by (rule to_double_lower) (simp add: nearest_nonneg)
  have sz: "\<not> less_double (to_double (dz * dz)) 0"
    by (rule to_double_lower) (simp add: nearest_nonneg)
  have "\<not> less_double (add_double (to_double (dx * dx)) (to_double (dy * dy))) (nearest ?s)"
    by (rule add_double_lower(1) [OF sx sy]) simp
  then have "\<not> less_double (add_double (to_double (dx * dx)) (to_double (dy * dy))) ?s"
    unfolding sq_at_target_exact .
  then have "\<not> less_double
      (add_double (add_double (to_double (dx * dx)) (to_double (dy * dy))) (to_double (dz * dz)))
      (nearest ?s)"
    by (rule add_double_lower(2) [OF sz]) simp
  then have "\<not> less_double
      (add_double (add_double (to_double (dx * dx)) (to_double (dy * dy))) (to_double (dz * dz)))
      ?s"
    unfolding sq_at_target_exact .
  then have "\<not> less_double
      (sqrt_double
        (add_double (add_double (to_double (dx * dx)) (to_double (dy * dy))) (to_double (dz * dz))))
      (nearest (sqrt ?s))"
    by (rule sqrt_double_lower) simp
  then have "\<not> less_double
      (sqrt_double
        (add_double (add_double (to_double (dx * dx)) (to_double (dy * dy))) (to_double (dz * dz))))
      (nearest 0.3)"
    unfolding sqrt_at_target nearest_03 .
  moreover have "dist_double (newPos_double pos) =
      sqrt_double
        (add_double (add_double (to_double (dx * dx)) (to_double (dy * dy))) (to_double (dz * dz)))"
    by (simp add: pos newPos_double_def dist_double_def Let_def dx_def dy_def dz_def y'_def)
  ultimately show ?thesis
    by simp
qed

lemma newPos_double_not_target: "newPos_double pos \<noteq> (0, - nearest 0.6, 0)"
proof -
  obtain x y z where pos: "pos = (x, y, z)"
    by (cases pos) auto
  have "- nearest 0.3 \<le> max (- nearest 0.3) (min (nearest 1.2) y)"
    by simp
  moreover have "- nearest 0.6 < - nearest 0.3"
    unfolding nearest_03 nearest_06 by simp
  ultimately show ?thesis
    by (auto simp: pos newPos_double_def)
qed

lemma useFrame_double_scrubs:
  "scrubs (useFrame_callback_double now pos s) =
     (if dragging s \<and> less_double (dist_double (newPos_double pos)) (nearest 0.9) \<and>
         \<not> scrubCooldown s
      then scrubs s + 1 else scrubs s)"
  by (auto simp: useFrame_callback_double_def drag_frame_double_def idle_frame_def Let_def
      split: option.splits prod.splits)

lemma dist_crow_at_clamped_target: "dist_crow (newPos (0, - 0.6, 0)) = 0.3"
proof -
  have "sqrt (0.09 :: real) = 0.3"
    by (rule real_sqrt_unique) (simp_all add: power2_eq_square)
  then show ?thesis
    by (simp add: dist_crow_def newPos_def)
qed

lemma newPos_double_kept:
  "newPos_double (0, nearest 0.3, 0) = (0, nearest 0.3, 0)"
  "newPos_double (0, nearest 0.3 + 1 / 2 ^ 54, 0) = (0, nearest 0.3 + 1 / 2 ^ 54, 0)"
  unfolding newPos_double_def nearest_03 nearest_12 by simp_all

text \<open>
  Claim C4, as amended. In double precision, as the engine computes lines 107-115: a
  frame raises the counter exactly when the sponge is dragged, no cooldown is active and
  the computed distance of the stored position from the crow's centre is strictly below
  the double of 0.9; when the computed distance equals or exceeds it, nothing fires. The
  stored position is never the centre itself: its height is at least the double of -0.3,
  and the computed distance is never below the double of 0.3. With the pointer's point
  exactly at the centre the sponge is stored 0.3 above it, the computed distance is the
  double of 0.3, and the scrub fires. At the radius: with the sponge at height
  \<open>0.30000000000000004\<close> the computed distance is the double of 0.9 itself and nothing
  fires; at height \<open>0.3\<close>, one double lower, it is \<open>0.8999999999999999\<close> and the scrub
  fires.
\<close>

theorem scrub_threshold_strict:
  "scrubs (useFrame_callback_double now pos s) =
     (if dragging s \<and> less_double (dist_double (newPos_double pos)) (nearest 0.9) \<and>
         \<not> scrubCooldown s
      then scrubs s + 1 else scrubs s) \<and>
   (\<not> less_double (dist_double (newPos_double pos)) (nearest 0.9) \<longrightarrow>
      scrubs (useFrame_callback_double now pos s) = scrubs s) \<and>
   \<not> less_double (dist_double (newPos_double pos)) (nearest 0.3) \<and>
   newPos_double pos \<noteq> (0, - nearest 0.6, 0) \<and>
   newPos_double (0, - nearest 0.6, 0) = (0, - nearest 0.3, 0) \<and>
   dist_double (newPos_double (0, - nearest 0.6, 0)) = Finite (nearest 0.3) \<and>
   (dragging s \<and> \<not> scrubCooldown s \<longrightarrow>
      scrubs (useFrame_callback_double now (0, - nearest 0.6, 0) s) = scrubs s + 1) \<and>
   dist_double (newPos_double (0, nearest 0.3 + 1 / 2 ^ 54, 0)) = Finite (nearest 0.9) \<and>
   scrubs (useFrame_callback_double now (0, nearest 0.3 + 1 / 2 ^ 54, 0) s) = scrubs s \<and>
   dist_double (newPos_double (0, nearest 0.3, 0)) = Finite (nearest 0.9 - 1 / 2 ^ 53) \<and>
   (dragging s \<and> \<not> scrubCooldown s \<longrightarrow>
      scrubs (useFrame_callback_double now (0, nearest 0.3, 0) s) = scrubs s + 1) \<and>
   nearest 0.3 = 5404319552844595 / 2 ^ 54 \<and>
   nearest 0.6 = 5404319552844595 / 2 ^ 53 \<and>
   nearest 0.9 = 8106479329266893 / 2 ^ 53"
proof -
  have rule: "scrubs (useFrame_callback_double now p s) =
     (if dragging s \<and> less_double (dist_double (newPos_double p)) (nearest 0.9) \<and>
         \<not> scrubCooldown s
      then scrubs s + 1 else scrubs s)" for p
    by (rule useFrame_double_scrubs)
  have far: "\<not> less_double (dist_double (newPos_double pos)) (nearest 0.9) \<longrightarrow>
      scrubs (useFrame_callback_double now pos s) = scrubs s"
    unfolding rule by simp
  have target: "dist_double (newPos_double (0, - nearest 0.6, 0)) = Finite (nearest 0.3)"
    unfolding newPos_double_target by (rule dist_double_target)
  have "nearest 0.3 < nearest 0.9"
    unfolding nearest_03 nearest_09 by simp
  then have at_target: "dragging s \<and> \<not> scrubCooldown s \<longrightarrow>
      scrubs (useFrame_callback_double now (0, - nearest 0.6, 0) s) = scrubs s + 1"
    unfolding rule target by simp
  have at: "dist_double (newPos_double (0, nearest 0.3 + 1 / 2 ^ 54, 0)) = Finite (nearest 0.9)"
    unfolding newPos_double_kept by (rule dist_double_at)
  have at_radius: "scrubs (useFrame_callback_double now (0, nearest 0.3 + 1 / 2 ^ 54, 0) s) = scrubs s"
    unfolding rule at by simp
  have below: "dist_double (newPos_double (0, nearest 0.3, 0)) = Finite (nearest 0.9 - 1 / 2 ^ 53)"
    unfolding newPos_double_kept by (rule dist_double_below)
  have under_radius: "dragging s \<and> \<not> scrubCooldown s \<longrightarrow>
      scrubs (useFrame_callback_double now (0, nearest 0.3, 0) s) = scrubs s + 1"
    unfolding rule below by simp
  show ?thesis
    using rule [of pos] far dist_double_lower [of pos] newPos_double_not_target [of pos]
      newPos_double_target target at_target at at_radius below under_radius
      nearest_03 nearest_06 nearest_09
    by (intro conjI)
qed

text \<open>
  A drag from the initial state: at the radius nothing fires, one double below it and at
  the crow's centre the scrub fires.
\<close>

theorem scrub_threshold_strict_witness:
  "\<not> less_double (dist_double (newPos_double (0, nearest 0.3 + 1 / 2 ^ 54, 0))) (nearest 0.9) \<and>
   scrubs (useFrame_callback_double 0 (0, nearest 0.3 + 1 / 2 ^ 54, 0) (onPointerDown init)) = 0 \<and>
   dragging (onPointerDown init) \<and> \<not> scrubCooldown (onPointerDown init) \<and>
   less_double (dist_double (newPos_double (0, nearest 0.3, 0))) (nearest 0.9) \<and>
   scrubs (useFrame_callback_double 0 (0, nearest 0.3, 0) (onPointerDown init)) = 1 \<and>
   scrubs (useFrame_callback_double 0 (0, - nearest 0.6, 0) (onPointerDown init)) = 1"
proof -
  note th = scrub_threshold_strict [of 0 "(0, nearest 0.3 + 1 / 2 ^ 54, 0)" "onPointerDown init"]
  have s: "dragging (onPointerDown init)" "\<not> scrubCooldown (onPointerDown init)"
    "scrubs (onPointerDown init) = 0"
    by (simp_all add: onPointerDown_def init_def)
  have at: "dist_double (newPos_double (0, nearest 0.3 + 1 / 2 ^ 54, 0)) = Finite (nearest 0.9)"
    and below: "dist_double (newPos_double (0, nearest 0.3, 0)) = Finite (nearest 0.9 - 1 / 2 ^ 53)"
    using th by blast+
  have a: "\<not> less_double (dist_double (newPos_double (0, nearest 0.3 + 1 / 2 ^ 54, 0))) (nearest 0.9)"
    unfolding at by simp
  have b: "less_double (dist_double (newPos_double (0, nearest 0.3, 0))) (nearest 0.9)"
    unfolding below by simp
  have "scrubs (useFrame_callback_double 0 (0, nearest 0.3 + 1 / 2 ^ 54, 0) (onPointerDown init)) =
      scrubs (onPointerDown init)"
    using th a by blast
  moreover have "scrubs (useFrame_callback_double 0 (0, nearest 0.3, 0) (onPointerDown init)) =
      scrubs (onPointerDown init) + 1"
    using th s by blast
  moreover have "scrubs (useFrame_callback_double 0 (0, - nearest 0.6, 0) (onPointerDown init)) =
      scrubs (onPointerDown init) + 1"
    using th s by blast
  ultimately show ?thesis
    using s a b by simp
qed

text \<open>
  The claim as stated fails where the pointer's point is the crow's centre: the sponge
  is stored at \<open>(0, -0.3, 0)\<close>, not at the centre, and the distance that line 114
  computes is 0.3, not 0; in double precision too.
\<close>

theorem scrub_at_target_counterexample:
  "position (useFrame_callback 0 (0, - 0.6, 0) (onPointerDown init)) = (0, - 0.3, 0) \<and>
   position (useFrame_callback 0 (0, - 0.6, 0) (onPointerDown init)) \<noteq> (0, - 0.6, 0) \<and>
   dist_crow (position (useFrame_callback 0 (0, - 0.6, 0) (onPointerDown init))) = 0.3 \<and>
   dist_crow (position (useFrame_callback 0 (0, - 0.6, 0) (onPointerDown init))) \<noteq> 0 \<and>
   position (useFrame_callback_double 0 (0, - nearest 0.6, 0) (onPointerDown init)) =
     (0, - nearest 0.3, 0) \<and>
   position (useFrame_callback_double 0 (0, - nearest 0.6, 0) (onPointerDown init)) \<noteq>
     (0, - nearest 0.6, 0) \<and>
   dist_double (position (useFrame_callback_double 0 (0, - nearest 0.6, 0) (onPointerDown init))) =
     Finite (5404319552844595 / 2 ^ 54) \<and>
   dist_double (position (useFrame_callback_double 0 (0, - nearest 0.6, 0) (onPointerDown init))) \<noteq>
     Finite 0"
proof -
  have drag: "dragging (onPointerDown init)"
    by (simp add: onPointerDown_def)
  have "position (useFrame_callback 0 (0, - 0.6, 0) (onPointerDown init)) = newPos (0, - 0.6, 0)"
    by (simp add: useFrame_position drag)
  moreover have "newPos (0, - 0.6, 0) = (0, - 0.3, 0)"
    by (simp add: newPos_def)
  ultimately have reals:
    "position (useFrame_callback 0 (0, - 0.6, 0) (onPointerDown init)) = (0, - 0.3, 0) \<and>
     position (useFrame_callback 0 (0, - 0.6, 0) (onPointerDown init)) \<noteq> (0, - 0.6, 0) \<and>
     dist_crow (position (useFrame_callback 0 (0, - 0.6, 0) (onPointerDown init))) = 0.3 \<and>
     dist_crow (position (useFrame_callback 0 (0, - 0.6, 0) (onPointerDown init))) \<noteq> 0"
    using dist_crow_at_clamped_target by simp
  have "position (useFrame_callback_double 0 pos (onPointerDown init)) = newPos_double pos" for pos
    using drag
    by (simp add: useFrame_callback_double_def drag_frame_double_def Let_def scrub_trigger_def
        setTimeout_def play_def handleScrub_def)
  then have p: "position (useFrame_callback_double 0 (0, - nearest 0.6, 0) (onPointerDown init)) =
      (0, - nearest 0.3, 0)"
    by (simp only: newPos_double_target)
  have "- nearest 0.3 \<noteq> - nearest 0.6"
    unfolding nearest_03 nearest_06 by simp
  then have doubles:
    "position (useFrame_callback_double 0 (0, - nearest 0.6, 0) (onPointerDown init)) =
       (0, - nearest 0.3, 0) \<and>
     position (useFrame_callback_double 0 (0, - nearest 0.6, 0) (onPointerDown init)) \<noteq>
       (0, - nearest 0.6, 0) \<and>
     dist_double (position (useFrame_callback_double 0 (0, - nearest 0.6, 0) (onPointerDown init))) =
       Finite (5404319552844595 / 2 ^ 54) \<and>
     dist_double (position (useFrame_callback_double 0 (0, - nearest 0.6, 0) (onPointerDown init))) \<noteq>
       Finite 0"
    unfolding p dist_double_target by (simp add: nearest_03)
  show ?thesis
    using reals doubles by (intro conjI) (elim conjE, assumption)+
qed

subsection \<open>The effects of the trigger\<close>

text \<open>
  Claim C6. A frame that fires a scrub raises the counter by exactly one and plays the
  splash and the caw, and nothing else; the trigger leaves the glow flag, the intro flag
  and the dead flag as they were, and the pointer's drag state too. The glow flag is
  set afterwards, by the effect that runs when the counter has changed.
\<close>

theorem scrub_trigger_effects:
  assumes "dragging s" and "within_radius (newPos pos)" and "\<not> scrubCooldown s"
  shows "scrubs (useFrame_callback now pos s) = scrubs s + 1 \<and>
         played (useFrame_callback now pos s) = played s @ [splashSound, cawSound] \<and>
         isGlowing (useFrame_callback now pos s) = isGlowing s \<and>
         showIntro (useFrame_callback now pos s) = showIntro s \<and>
         dead (useFrame_callback now pos s) = dead s \<and>
         dragging (useFrame_callback now pos s) = dragging s \<and>
         isGlowing (render s (useFrame_callback now pos s)) = (isGlowing s \<or> 9 \<le> scrubs s)"
proof -
  have f: "fires pos s"
    using assms by (simp add: fires_def)
  have "scrubs (useFrame_callback now pos s) = scrubs s + 1"
    by (simp add: useFrame_scrubs f)
  moreover have "played (useFrame_callback now pos s) = played s @ [splashSound, cawSound]"
    by (simp add: useFrame_fires [OF f])
  moreover have "isGlowing (render s (useFrame_callback now pos s)) = (isGlowing s \<or> 9 \<le> scrubs s)"
    by (auto simp: render_isGlowing useFrame_scrubs f)
  ultimately show ?thesis
    by simp
qed

theorem scrub_trigger_effects_witness:
  "dragging (onPointerDown init) \<and> within_radius (newPos (0, 0, 0)) \<and>
   \<not> scrubCooldown (onPointerDown init) \<and>
   scrubs (useFrame_callback 0 (0, 0, 0) (onPointerDown init)) = 1 \<and>
   played (useFrame_callback 0 (0, 0, 0) (onPointerDown init)) = [splashSound, cawSound] \<and>
   \<not> isGlowing (useFrame_callback 0 (0, 0, 0) (onPointerDown init)) \<and>
   showIntro (useFrame_callback 0 (0, 0, 0) (onPointerDown init)) \<and>
   \<not> dead (useFrame_callback 0 (0, 0, 0) (onPointerDown init))"
proof -
  have h: "dragging (onPointerDown init)" "within_radius (newPos (0, 0, 0))"
    "\<not> scrubCooldown (onPointerDown init)"
    by (simp_all add: eval_defs)
  show ?thesis
    using h scrub_trigger_effects [OF h, of 0]
    by (simp add: onPointerDown_def init_def)
qed

subsection \<open>The idle animation\<close>

lemma idle_frame_fields [simp]:
  "scrubs (idle_frame now s) = scrubs s"
  "played (idle_frame now s) = played s"
  "scrubCooldown (idle_frame now s) = scrubCooldown s"
  "timers (idle_frame now s) = timers s"
  "position (idle_frame now s) = position s"
  by (simp_all add: idle_frame_def split: option.splits prod.splits)

lemma idle_frame_ref:
  "ref (idle_frame now s) =
     map_option (\<lambda>m. \<lparr>rotation_z = rotation_z m + 0.01,
        mesh_position = (fst (mesh_position m),
                         fst (snd (position s)) + sin (now / 700) * 0.02,
                         snd (snd (mesh_position m)))\<rparr>) (ref s)"
  by (auto simp: idle_frame_def idle_offset_def split: option.splits prod.splits)

lemma ref_attached_step:
  assumes "ref s \<noteq> None"
  shows "ref (step now e s) \<noteq> None"
proof (cases e)
  case (Frame pos)
  show ?thesis
    using assms
    by (cases "fires pos (run_timers now s)")
       (auto simp: Frame step_def Let_def useFrame_fires useFrame_callback_def drag_frame_def
          idle_frame_def fires_def split: option.splits prod.splits)
qed (use assms in \<open>simp_all add: step_def Let_def onPointerDown_def onPointerUp_def
      onPointerLeave_def handleAnswer_def setTimeout_def\<close>)

lemma ref_attached_run: "ref s \<noteq> None \<Longrightarrow> ref (run s es) \<noteq> None"
proof (induction es arbitrary: s)
  case Nil
  then show ?case
    by simp
next
  case (Cons te es)
  obtain now e where te: "te = (now, e)"
    by (cases te)
  have "ref (run (step now e s) es) \<noteq> None"
    by (rule Cons.IH [OF ref_attached_step [OF Cons.prems]])
  then show ?case
    unfolding te run.simps .
qed

text \<open>
  Claim C7. A frame outside a drag runs the idle animation only: the mesh turns by 0.01
  and its height is the height of the sponge plus the sine of the time; for every input
  point, near the crow or not, the counter, the sounds, the cooldown and the timers stay
  as they are, also when the frame is a step of the event loop. In every state reached
  from the initial state the mesh is attached, so the animation does run.
\<close>

theorem idle_frame_never_scrubs:
  assumes "\<not> dragging s"
  shows "useFrame_callback now pos s = idle_frame now s \<and>
         scrubs (useFrame_callback now pos s) = scrubs s \<and>
         played (useFrame_callback now pos s) = played s \<and>
         scrubCooldown (useFrame_callback now pos s) = scrubCooldown s \<and>
         timers (useFrame_callback now pos s) = timers s \<and>
         position (useFrame_callback now pos s) = position s \<and>
         ref (useFrame_callback now pos s) =
           map_option (\<lambda>m. \<lparr>rotation_z = rotation_z m + 0.01,
              mesh_position = (fst (mesh_position m),
                               fst (snd (position s)) + sin (now / 700) * 0.02,
                               snd (snd (mesh_position m)))\<rparr>) (ref s) \<and>
         scrubs (step now (Frame pos) s) = scrubs s \<and>
         played (step now (Frame pos) s) = played s \<and>
         ref (run init es) \<noteq> None"
proof -
  have attached: "ref (run init es) \<noteq> None"
    by (rule ref_attached_run) (simp add: init_def)
  have cb: "useFrame_callback now pos s = idle_frame now s"
    using assms by (simp add: useFrame_callback_def)
  have "useFrame_callback now pos (run_timers now s) = idle_frame now (run_timers now s)"
    using assms by (simp add: useFrame_callback_def)
  then have "scrubs (step now (Frame pos) s) = scrubs s"
    and "played (step now (Frame pos) s) = played s"
    by (simp_all add: step_def Let_def)
  then show ?thesis
    using attached by (simp add: cb idle_frame_ref)
qed

theorem idle_frame_never_scrubs_witness:
  "\<not> dragging init \<and> within_radius (newPos (0, 0, 0)) \<and>
   scrubs (useFrame_callback 0 (0, 0, 0) init) = 0 \<and>
   played (useFrame_callback 0 (0, 0, 0) init) = [] \<and>
   ref (useFrame_callback 0 (0, 0, 0) init) =
     Some \<lparr>rotation_z = 0.01, mesh_position = (1.2, 0.5, 0.6)\<rparr> \<and>
   scrubs (step 0 (Frame (0, 0, 0)) init) = 0"
proof -
  have h: "\<not> dragging init"
    by (simp add: init_def)
  have near: "within_radius (newPos (0, 0, 0))"
    by (simp add: eval_defs)
  note th = idle_frame_never_scrubs [OF h, of 0 "(0, 0, 0)"]
  have "scrubs (useFrame_callback 0 (0, 0, 0) init) = scrubs init"
    and "played (useFrame_callback 0 (0, 0, 0) init) = played init"
    and "scrubs (step 0 (Frame (0, 0, 0)) init) = scrubs init"
    using th by blast+
  moreover have "ref (useFrame_callback 0 (0, 0, 0) init) =
      Some \<lparr>rotation_z = 0.01, mesh_position = (1.2, 0.5, 0.6)\<rparr>"
    by (simp add: eval_defs)
  ultimately show ?thesis
    using h near by (simp add: init_def)
qed

text \<open>
  Claim C8. Outside a drag, with the mesh attached, the offset of the mesh above the
  height of the sponge after a frame depends on the time of the frame only: two frames at
  the same time give the same offset, whatever the two states and the two input points
  are, and the offset is 0.02 times the sine of the time over 700.
\<close>

theorem idle_offset_pure:
  assumes "\<not> dragging s1" and "\<not> dragging s2" and "ref s1 \<noteq> None" and "ref s2 \<noteq> None"
  shows "vertical_offset (useFrame_callback now p1 s1) =
           vertical_offset (useFrame_callback now p2 s2) \<and>
         vertical_offset (useFrame_callback now p1 s1) = Some (idle_offset now) \<and>
         idle_offset now = sin (now / 700) * 0.02"
proof -
  have "vertical_offset (useFrame_callback now p s) = Some (idle_offset now)"
    if "\<not> dragging s" and "ref s \<noteq> None" for p s
    using that
    by (auto simp: vertical_offset_def useFrame_callback_def idle_frame_def
        split: option.splits prod.splits)
  then show ?thesis
    using assms by (simp add: idle_offset_def)
qed

theorem idle_offset_pure_witness:
  "\<not> dragging init \<and> \<not> dragging (onPointerUp (useFrame_callback 0 (0, 9, 0) (onPointerDown init))) \<and>
   ref init \<noteq> None \<and>
   ref (onPointerUp (useFrame_callback 0 (0, 9, 0) (onPointerDown init))) \<noteq> None \<and>
   position init \<noteq> position (onPointerUp (useFrame_callback 0 (0, 9, 0) (onPointerDown init))) \<and>
   vertical_offset (useFrame_callback 0 (0, 0, 0) init) =
     vertical_offset (useFrame_callback 0 (1, 1, 1)
        (onPointerUp (useFrame_callback 0 (0, 9, 0) (onPointerDown init)))) \<and>
   vertical_offset (useFrame_callback 0 (0, 0, 0) init) = Some 0"
proof -
  have h: "\<not> dragging init"
    "\<not> dragging (onPointerUp (useFrame_callback 0 (0, 9, 0) (onPointerDown init)))"
    "ref init \<noteq> None"
    "ref (onPointerUp (useFrame_callback 0 (0, 9, 0) (onPointerDown init))) \<noteq> None"
    by (simp_all add: eval_defs)
  have moved: "position init \<noteq>
      position (onPointerUp (useFrame_callback 0 (0, 9, 0) (onPointerDown init)))"
    by (simp add: eval_defs)
  note th = idle_offset_pure [OF h, of 0 "(0, 0, 0)" "(1, 1, 1)"]
  have "vertical_offset (useFrame_callback 0 (0, 0, 0) init) =
     vertical_offset (useFrame_callback 0 (1, 1, 1)
        (onPointerUp (useFrame_callback 0 (0, 9, 0) (onPointerDown init))))"
    using th by blast
  moreover have "vertical_offset (useFrame_callback 0 (0, 0, 0) init) = Some (idle_offset 0)"
    using th by blast
  then have "vertical_offset (useFrame_callback 0 (0, 0, 0) init) = Some 0"
    by (simp add: idle_offset_def)
  ultimately show ?thesis
    using h moved by blast
qed

subsection \<open>The cooldown in a run\<close>

lemma releases_run_timers:
  "releases (run_timers now s) = filter (\<lambda>d. now < d) (releases s)"
  by (simp add: releases_def due_def filter_map o_def conj_commute not_le)

lemma run_timers_cooldown_releases:
  "scrubCooldown (run_timers now s) = (scrubCooldown s \<and> list_all (\<lambda>d. now < d) (releases s))"
  by (auto simp: run_timers_cooldown releases_def list_all_iff)

lemma useFrame_cooldown:
  "scrubCooldown (useFrame_callback now pos s) = (scrubCooldown s \<or> fires pos s)"
  by (cases "fires pos s") (simp_all add: useFrame_fires useFrame_quiet)

lemma useFrame_releases:
  "releases (useFrame_callback now pos s) =
     (if fires pos s then releases s @ [now + 350] else releases s)"
  by (cases "fires pos s") (simp_all add: releases_def useFrame_fires useFrame_quiet)

lemma dispatch_cooldown:
  "scrubCooldown (dispatch now e s) =
     (case e of Frame pos \<Rightarrow> scrubCooldown s \<or> fires pos s | _ \<Rightarrow> scrubCooldown s)"
  by (cases e)
     (simp_all add: useFrame_cooldown onPointerDown_def onPointerUp_def
        onPointerLeave_def handleAnswer_def setTimeout_def)

lemma dispatch_releases:
  "releases (dispatch now e s) =
     (case e of Frame pos \<Rightarrow> if fires pos s then releases s @ [now + 350] else releases s
      | _ \<Rightarrow> releases s)"
  by (cases e)
     (simp_all add: useFrame_releases,
      simp_all add: releases_def onPointerDown_def onPointerUp_def
        onPointerLeave_def handleAnswer_def setTimeout_def)

lemma dispatch_dragging:
  "dragging (dispatch now e s) =
     (case e of PointerDown \<Rightarrow> True | PointerUp \<Rightarrow> False | PointerLeave \<Rightarrow> False
      | _ \<Rightarrow> dragging s)"
  by (cases e)
     (auto simp: onPointerDown_def onPointerUp_def onPointerLeave_def handleAnswer_def
        setTimeout_def)

lemma releases_render [simp]: "releases (render b s) = releases s"
  by (simp add: releases_def)

lemma step_cooldown:
  "scrubCooldown (step now e s) =
     (case e of Frame pos \<Rightarrow> scrubCooldown (run_timers now s) \<or> fires pos (run_timers now s)
      | _ \<Rightarrow> scrubCooldown (run_timers now s))"
  by (simp add: step_def Let_def dispatch_cooldown split: event.splits)

lemma step_releases:
  "releases (step now e s) =
     (case e of Frame pos \<Rightarrow>
        if fires pos (run_timers now s) then releases (run_timers now s) @ [now + 350]
        else releases (run_timers now s)
      | _ \<Rightarrow> releases (run_timers now s))"
  by (simp add: step_def Let_def dispatch_releases split: event.splits)

lemma step_dragging:
  "dragging (step now e s) =
     (case e of PointerDown \<Rightarrow> True | PointerUp \<Rightarrow> False | PointerLeave \<Rightarrow> False
      | _ \<Rightarrow> dragging s)"
  by (simp add: step_def Let_def dispatch_dragging split: event.splits)

lemma cooldown_inv_run_timers:
  assumes "cooldown_inv s"
  shows "cooldown_inv (run_timers now s)"
proof (cases "scrubCooldown s")
  case False
  with assms show ?thesis
    by (simp add: cooldown_inv_def releases_run_timers run_timers_cooldown_releases)
next
  case True
  with assms obtain d where "releases s = [d]"
    by (auto simp: cooldown_inv_def length_Suc_conv)
  then show ?thesis
    using True
    by (simp add: cooldown_inv_def releases_run_timers run_timers_cooldown_releases)
qed

lemma cooldown_inv_step:
  assumes "cooldown_inv s"
  shows "cooldown_inv (step now e s)"
proof -
  have "cooldown_inv (run_timers now s)"
    by (rule cooldown_inv_run_timers [OF assms])
  then show ?thesis
    by (cases e) (auto simp: cooldown_inv_def step_cooldown step_releases fires_def)
qed

lemma cooldown_inv_run: "cooldown_inv s \<Longrightarrow> cooldown_inv (run s es)"
  by (induction es arbitrary: s) (auto simp: cooldown_inv_step)

lemma cooldown_inv_init: "cooldown_inv init"
  by (simp add: cooldown_inv_def releases_def init_def)

text \<open>A scrub starts a cooldown that lasts until 350 ms after the frame.\<close>

lemma fired_cooling:
  assumes "cooldown_inv s" and "scrubs (step now e s) \<noteq> scrubs s"
  shows "cooling (now + 350) (step now e s)"
proof -
  obtain pos where e: "e = Frame pos" and f: "fires pos (run_timers now s)"
    using assms(2) by (cases e) (auto simp: step_scrubs split: if_splits)
  have "cooldown_inv (run_timers now s)"
    by (rule cooldown_inv_run_timers [OF assms(1)])
  with f have "releases (run_timers now s) = []"
    by (simp add: cooldown_inv_def fires_def)
  then show ?thesis
    using f by (simp add: cooling_def e step_cooldown step_releases)
qed

lemma cooling_step:
  assumes "cooling T s" and "now < T"
  shows "cooling T (step now e s)" and "scrubs (step now e s) = scrubs s"
proof -
  have keep: "filter (\<lambda>d. now < d) (releases s) = releases s"
    using assms by (auto simp: cooling_def list_all_iff intro!: filter_True)
  have cd: "scrubCooldown (run_timers now s)"
    using assms by (auto simp: cooling_def run_timers_cooldown_releases list_all_iff)
  then have quiet: "\<not> fires pos (run_timers now s)" for pos
    by (simp add: fires_def)
  show "cooling T (step now e s)"
    using assms cd quiet keep
    by (cases e) (simp_all add: cooling_def step_cooldown step_releases releases_run_timers)
  show "scrubs (step now e s) = scrubs s"
    using quiet by (cases e) (simp_all add: step_scrubs)
qed

lemma cooling_run:
  assumes "cooling T s" and "list_all (\<lambda>te. fst te < T) es"
  shows "cooling T (run s es)" and "scrubs (run s es) = scrubs s"
  using assms
  by (induction es arbitrary: s) (auto simp: cooling_step)

lemma fired_releases:
  assumes "cooldown_inv s" and "scrubs (step now e s) \<noteq> scrubs s"
  shows "releases (step now e s) = [now + 350]"
proof -
  obtain pos where e: "e = Frame pos" and f: "fires pos (run_timers now s)"
    using assms(2) by (cases e) (auto simp: step_scrubs split: if_splits)
  have "cooldown_inv (run_timers now s)"
    by (rule cooldown_inv_run_timers [OF assms(1)])
  with f have "releases (run_timers now s) = []"
    by (simp add: cooldown_inv_def fires_def)
  then show ?thesis
    using f by (simp add: e step_releases)
qed

lemma fired_cooldown_window:
  assumes "cooldown_inv s" and "scrubs (step now e s) \<noteq> scrubs s"
  shows "scrubCooldown (run_timers t (step now e s)) = (t < now + 350)"
  using fired_cooling [OF assms] fired_releases [OF assms]
  by (simp add: run_timers_cooldown_releases cooling_def)

lemma debounce:
  assumes inv: "cooldown_inv s"
    and fired: "scrubs (step t1 e1 s) \<noteq> scrubs s"
    and order: "sorted (map fst ((t1, e1) # es @ [(t2, e2)]))"
    and close: "t2 - t1 < 350"
  shows "scrubs (run (step t1 e1 s) es) = scrubs (step t1 e1 s)"
    and "scrubs (step t2 e2 (run (step t1 e1 s) es)) = scrubs (step t1 e1 s)"
proof -
  have c: "cooling (t1 + 350) (step t1 e1 s)"
    by (rule fired_cooling [OF inv fired])
  have "\<forall>te \<in> set es. fst te \<le> t2"
    using order by (auto simp: sorted_append)
  then have early: "list_all (\<lambda>te. fst te < t1 + 350) es"
    using close by (fastforce simp: list_all_iff)
  show same: "scrubs (run (step t1 e1 s) es) = scrubs (step t1 e1 s)"
    by (rule cooling_run(2) [OF c early])
  have "cooling (t1 + 350) (run (step t1 e1 s) es)"
    by (rule cooling_run(1) [OF c early])
  moreover have "t2 < t1 + 350"
    using close by simp
  ultimately have "scrubs (step t2 e2 (run (step t1 e1 s) es)) = scrubs (run (step t1 e1 s) es)"
    by (rule cooling_step(2))
  then show "scrubs (step t2 e2 (run (step t1 e1 s) es)) = scrubs (step t1 e1 s)"
    using same by simp
qed

text \<open>
  Claim C1, as amended. A frame fires a scrub exactly when the sponge is dragged within
  the radius and the cooldown is not active; during a cooldown a frame fires nothing and
  plays nothing, however near the sponge is. Firing sets the cooldown and schedules its
  release 350 ms later. In a run from the initial state, after a frame at time \<open>t1\<close> that
  has fired, the cooldown is active at every time before \<open>t1 + 350\<close> and released at every
  time from \<open>t1 + 350\<close> on; and of two events less than 350 ms apart, when the first has
  raised the counter, neither the second nor any event between the two raises it.
\<close>

theorem scrub_cooldown_debounce:
  "scrubs (useFrame_callback now pos st) =
     (if dragging st \<and> within_radius (newPos pos) \<and> \<not> scrubCooldown st
      then scrubs st + 1 else scrubs st) \<and>
   (scrubCooldown st \<longrightarrow>
      scrubs (useFrame_callback now pos st) = scrubs st \<and>
      played (useFrame_callback now pos st) = played st) \<and>
   (dragging st \<and> within_radius (newPos pos) \<and> \<not> scrubCooldown st \<longrightarrow>
      scrubCooldown (useFrame_callback now pos st) \<and>
      timers (useFrame_callback now pos st) = timers st @ [(now + 350, ReleaseCooldown)]) \<and>
   (scrubs (step t1 e1 (run init es0)) \<noteq> scrubs (run init es0) \<longrightarrow>
      scrubCooldown (run_timers t (step t1 e1 (run init es0))) = (t < t1 + 350)) \<and>
   (scrubs (step t1 e1 (run init es0)) \<noteq> scrubs (run init es0) \<and>
    sorted (map fst ((t1, e1) # es @ [(t2, e2)])) \<and> t2 - t1 < 350 \<longrightarrow>
      scrubs (run (step t1 e1 (run init es0)) es) = scrubs (step t1 e1 (run init es0)) \<and>
      scrubs (step t2 e2 (run (step t1 e1 (run init es0)) es)) =
        scrubs (step t1 e1 (run init es0)))"
proof -
  have inv: "cooldown_inv (run init es0)"
    by (rule cooldown_inv_run [OF cooldown_inv_init])
  have rule: "scrubs (useFrame_callback now pos st) =
     (if dragging st \<and> within_radius (newPos pos) \<and> \<not> scrubCooldown st
      then scrubs st + 1 else scrubs st)"
    unfolding useFrame_scrubs fires_def by (rule refl)
  have quiet: "scrubCooldown st \<longrightarrow>
      scrubs (useFrame_callback now pos st) = scrubs st \<and>
      played (useFrame_callback now pos st) = played st"
    by (simp add: useFrame_quiet fires_def)
  have start: "dragging st \<and> within_radius (newPos pos) \<and> \<not> scrubCooldown st \<longrightarrow>
      scrubCooldown (useFrame_callback now pos st) \<and>
      timers (useFrame_callback now pos st) = timers st @ [(now + 350, ReleaseCooldown)]"
  proof
    assume "dragging st \<and> within_radius (newPos pos) \<and> \<not> scrubCooldown st"
    then have "fires pos st"
      by (simp add: fires_def)
    then show "scrubCooldown (useFrame_callback now pos st) \<and>
      timers (useFrame_callback now pos st) = timers st @ [(now + 350, ReleaseCooldown)]"
      by (simp add: useFrame_fires)
  qed
  have window: "scrubs (step t1 e1 (run init es0)) \<noteq> scrubs (run init es0) \<longrightarrow>
      scrubCooldown (run_timers t (step t1 e1 (run init es0))) = (t < t1 + 350)"
    using fired_cooldown_window [OF inv] by blast
  have twice: "scrubs (step t1 e1 (run init es0)) \<noteq> scrubs (run init es0) \<and>
    sorted (map fst ((t1, e1) # es @ [(t2, e2)])) \<and> t2 - t1 < 350 \<longrightarrow>
      scrubs (run (step t1 e1 (run init es0)) es) = scrubs (step t1 e1 (run init es0)) \<and>
      scrubs (step t2 e2 (run (step t1 e1 (run init es0)) es)) =
        scrubs (step t1 e1 (run init es0))"
    using debounce [OF inv] by blast
  show ?thesis
    using rule quiet start window twice by (intro conjI)
qed

text \<open>
  A fresh drag into the radius: the frame at time 0 fires, the frames at 100 ms and at
  340 ms do not, and the cooldown set at time 0 is over at 350 ms.
\<close>

theorem scrub_cooldown_debounce_witness:
  "scrubCooldown (step 0 (Frame (0, 0, 0)) (run init [(0, PointerDown)])) \<and>
   dragging (run init [(0, PointerDown)]) \<and> within_radius (newPos (0, 0, 0)) \<and>
   \<not> scrubCooldown (run init [(0, PointerDown)]) \<and>
   scrubs (step 0 (Frame (0, 0, 0)) (run init [(0, PointerDown)])) \<noteq>
     scrubs (run init [(0, PointerDown)]) \<and>
   sorted (map fst [(0 :: real, Frame (0, 0, 0)), (100, Frame (0, 0, 0)), (340, Frame (0, 0, 0))]) \<and>
   (340 :: real) - 0 < 350 \<and>
   scrubs (step 340 (Frame (0, 0, 0))
     (run (step 0 (Frame (0, 0, 0)) (run init [(0, PointerDown)])) [(100, Frame (0, 0, 0))])) = 1 \<and>
   scrubCooldown (run_timers 349 (step 0 (Frame (0, 0, 0)) (run init [(0, PointerDown)]))) \<and>
   \<not> scrubCooldown (run_timers 350 (step 0 (Frame (0, 0, 0)) (run init [(0, PointerDown)])))"
proof -
  have s0: "dragging (run init [(0, PointerDown)])" "\<not> scrubCooldown (run init [(0, PointerDown)])"
    "scrubs (run init [(0, PointerDown)]) = 0" "within_radius (newPos (0, 0, 0))"
    by (simp_all add: eval_defs)
  note th = scrub_cooldown_debounce [of 0 "(0, 0, 0)" "run init [(0, PointerDown)]" 0
      "Frame (0, 0, 0)" "[(0, PointerDown)]" _ "[(100, Frame (0, 0, 0))]" 340 "Frame (0, 0, 0)"]
  have s1: "scrubs (step 0 (Frame (0, 0, 0)) (run init [(0, PointerDown)])) = 1"
    "scrubCooldown (step 0 (Frame (0, 0, 0)) (run init [(0, PointerDown)]))"
    by (simp_all add: eval_defs)
  have fired: "scrubs (step 0 (Frame (0, 0, 0)) (run init [(0, PointerDown)])) \<noteq>
     scrubs (run init [(0, PointerDown)])"
    using s0 s1 by simp
  have order: "sorted (map fst [(0 :: real, Frame (0, 0, 0)), (100, Frame (0, 0, 0)), (340, Frame (0, 0, 0))])"
    "(340 :: real) - 0 < 350"
    by simp_all
  have "scrubs (step 340 (Frame (0, 0, 0))
     (run (step 0 (Frame (0, 0, 0)) (run init [(0, PointerDown)])) [(100, Frame (0, 0, 0))])) =
     scrubs (step 0 (Frame (0, 0, 0)) (run init [(0, PointerDown)]))"
    using th [of 0] fired order by simp
  moreover have "scrubCooldown (run_timers 349 (step 0 (Frame (0, 0, 0)) (run init [(0, PointerDown)])))"
    using th [of 349] fired by simp
  moreover have "\<not> scrubCooldown (run_timers 350 (step 0 (Frame (0, 0, 0)) (run init [(0, PointerDown)])))"
    using th [of 350] fired by simp
  ultimately show ?thesis
    using s0 s1 fired order by simp
qed

text \<open>
  The claim as stated fails for two frames of which the first falls into an earlier
  cooldown: after a scrub at time 0 the frames at 340 ms and at 360 ms are both within the
  radius and 20 ms apart; the frame at 340 ms does not raise the counter and the frame at
  360 ms, after the release at 350 ms, does.
\<close>

theorem only_first_increments_counterexample:
  "dragging (run init [(0, PointerDown), (0, Frame (0, 0, 0))]) \<and>
   dragging (run init [(0, PointerDown), (0, Frame (0, 0, 0)), (340, Frame (0, 0, 0))]) \<and>
   within_radius (newPos (0, 0, 0)) \<and>
   (360 :: real) - 340 < 350 \<and>
   scrubs (run init [(0, PointerDown), (0, Frame (0, 0, 0))]) = 1 \<and>
   scrubs (run init [(0, PointerDown), (0, Frame (0, 0, 0)), (340, Frame (0, 0, 0))]) = 1 \<and>
   scrubs (run init [(0, PointerDown), (0, Frame (0, 0, 0)), (340, Frame (0, 0, 0)),
                     (360, Frame (0, 0, 0))]) = 2"
  by (simp add: eval_defs)

subsection \<open>The counter and the glow\<close>

lemma step_scrubs_cases: "scrubs (step now e s) = scrubs s \<or> scrubs (step now e s) = scrubs s + 1"
  by (cases e) (simp_all add: step_scrubs)

lemma scrubs_mono_step: "scrubs s \<le> scrubs (step now e s)"
  using step_scrubs_cases [of now e s] by auto

lemma scrubs_mono_run: "scrubs s \<le> scrubs (run s es)"
proof (induction es arbitrary: s)
  case Nil
  show ?case by simp
next
  case (Cons te es)
  obtain now e where te: "te = (now, e)"
    by (cases te)
  have "scrubs s \<le> scrubs (step now e s)"
    by (rule scrubs_mono_step)
  also have "\<dots> \<le> scrubs (run (step now e s) es)"
    by (rule Cons.IH)
  finally show ?case
    by (simp add: te)
qed

lemma glow_stays_step: "isGlowing s \<Longrightarrow> isGlowing (step now e s)"
  by (subst step_isGlowing) simp

lemma glow_stays_run: "isGlowing s \<Longrightarrow> isGlowing (run s es)"
  by (induction es arbitrary: s) (auto simp: glow_stays_step)

lemma glow_inv_step:
  assumes "glow_inv s"
  shows "glow_inv (step now e s)"
  using assms step_scrubs_cases [of now e s]
  unfolding glow_inv_def by (subst step_isGlowing) auto

lemma glow_inv_run: "glow_inv s \<Longrightarrow> glow_inv (run s es)"
  by (induction es arbitrary: s) (auto simp: glow_inv_step)

lemma glow_inv_init: "glow_inv init"
  by (simp add: glow_inv_def init_def)

text \<open>
  Frames within the radius, each at least 350 ms after the one before, all fire, when
  the first of them finds the cooldown released.
\<close>

lemma spaced_frames_all_fire:
  assumes "dragging s"
    and "\<not> scrubCooldown s \<or> (releases s \<noteq> [] \<and> (\<forall>d \<in> set (releases s). \<forall>f \<in> set fs. d \<le> fst f))"
    and "sorted_wrt (\<lambda>a b. a + 350 \<le> b) (map fst fs)"
    and "\<forall>f \<in> set fs. within_radius (newPos (snd f))"
    and "cooldown_inv s"
  shows "scrubs (run s (frames fs)) = scrubs s + length fs \<and> dragging (run s (frames fs))"
  using assms
proof (induction fs arbitrary: s)
  case Nil
  then show ?case
    by (simp add: frames_def)
next
  case (Cons f fs)
  obtain t p where f: "f = (t, p)"
    by (cases f)
  let ?s' = "step t (Frame p) s"
  have free: "\<not> scrubCooldown (run_timers t s)"
  proof (cases "scrubCooldown s")
    case False
    then show ?thesis
      by (simp add: run_timers_cooldown_releases)
  next
    case True
    with Cons.prems(2) obtain d where "d \<in> set (releases s)" and "d \<le> t"
      by (cases "releases s") (auto simp: f)
    then have "\<not> list_all (\<lambda>d. t < d) (releases s)"
      by (force simp: list_all_iff)
    then show ?thesis
      by (simp add: run_timers_cooldown_releases)
  qed
  have fire: "fires p (run_timers t s)"
    using Cons.prems(1,4) free by (simp add: fires_def f)
  have sc: "scrubs ?s' = scrubs s + 1"
    by (simp add: step_scrubs fire)
  have dr: "dragging ?s'"
    using Cons.prems(1) by (simp add: step_dragging)
  have rel: "releases ?s' = filter (\<lambda>d. t < d) (releases s) @ [t + 350]"
    by (simp add: step_releases fire releases_run_timers)
  have old: "filter (\<lambda>d. t < d) (releases s) = []"
  proof (cases "scrubCooldown s")
    case False
    then show ?thesis
      using Cons.prems(5) by (simp add: cooldown_inv_def)
  next
    case True
    with Cons.prems(2) have "\<forall>d \<in> set (releases s). d \<le> t"
      by (auto simp: f)
    then show ?thesis
      by (auto simp: filter_empty_conv)
  qed
  have later: "\<forall>g \<in> set fs. t + 350 \<le> fst g"
    using Cons.prems(3) by (auto simp: f)
  have "scrubs (run ?s' (frames fs)) = scrubs ?s' + length fs \<and> dragging (run ?s' (frames fs))"
  proof (rule Cons.IH [OF dr])
    show "\<not> scrubCooldown ?s' \<or>
        (releases ?s' \<noteq> [] \<and> (\<forall>d \<in> set (releases ?s'). \<forall>f \<in> set fs. d \<le> fst f))"
      using later by (simp add: rel old)
    show "sorted_wrt (\<lambda>a b. a + 350 \<le> b) (map fst fs)"
      using Cons.prems(3) by simp
    show "\<forall>f \<in> set fs. within_radius (newPos (snd f))"
      using Cons.prems(4) by simp
    show "cooldown_inv ?s'"
      by (rule cooldown_inv_step [OF Cons.prems(5)])
  qed
  then show ?case
    by (simp add: frames_def f sc)
qed

lemma scrubbing_times:
  "sorted_wrt (\<lambda>a b. a + 350 \<le> b) (map (\<lambda>i. 400 * real i) [0..<n])"
proof -
  have "sorted_wrt (\<lambda>i j. 400 * real i + 350 \<le> 400 * real j) [0..<n]"
    by (rule sorted_wrt_mono_rel [of _ "(<)"]) auto
  then show ?thesis
    by (simp add: sorted_wrt_map)
qed

lemma scrubbing_sorted: "sorted (map fst (scrubbing n))"
proof -
  have "sorted (map (\<lambda>i. 400 * real i) [0..<n])"
    by (rule sorted_wrt_mono_rel [OF _ scrubbing_times]) auto
  then show ?thesis
    by (simp add: scrubbing_def frames_def o_def)
qed

lemma scrubbing_run:
  "scrubs (run init (scrubbing n)) = n \<and> dragging (run init (scrubbing n))"
proof -
  let ?s = "step 0 PointerDown init"
  let ?fs = "map (\<lambda>i. (400 * real i, (0 :: real, 0 :: real, 0 :: real))) [0..<n]"
  have s: "dragging ?s" "\<not> scrubCooldown ?s" "scrubs ?s = 0"
    by (simp_all add: eval_defs)
  have "scrubs (run ?s (frames ?fs)) = scrubs ?s + length ?fs \<and> dragging (run ?s (frames ?fs))"
  proof (rule spaced_frames_all_fire)
    show "dragging ?s"
      by (rule s)
    show "\<not> scrubCooldown ?s \<or>
        (releases ?s \<noteq> [] \<and> (\<forall>d \<in> set (releases ?s). \<forall>f \<in> set ?fs. d \<le> fst f))"
      using s by simp
    show "sorted_wrt (\<lambda>a b. a + 350 \<le> b) (map fst ?fs)"
      using scrubbing_times [of n] by (simp add: o_def)
    show "\<forall>f \<in> set ?fs. within_radius (newPos (snd f))"
      by (simp add: newPos_def within_radius_iff)
    show "cooldown_inv ?s"
      by (rule cooldown_inv_step [OF cooldown_inv_init])
  qed
  then show ?thesis
    by (simp add: scrubbing_def s)
qed

text \<open>
  Claim C2. Frames of a drag within the radius, each more than 350 ms after the one
  before, all count: from a state reached with the sponge dragged and no cooldown active
  the counter grows by their number, and from the initial state, after the pointer went
  down, it equals their number. In every state that a run reaches from the initial state
  the glow flag is set exactly when the counter is at least 10, and from any state on no
  event resets the flag.
\<close>

theorem spaced_scrubs_counted:
  assumes "sorted_wrt (\<lambda>a b. a + 350 < b) (map fst fs)"
    and "\<forall>f \<in> set fs. within_radius (newPos (snd f))"
  shows "scrubs (run init ((t0, PointerDown) # frames fs)) = length fs \<and>
         isGlowing (run init ((t0, PointerDown) # frames fs)) = (10 \<le> length fs) \<and>
         (dragging (run init es0) \<and> \<not> scrubCooldown (run init es0) \<longrightarrow>
            scrubs (run (run init es0) (frames fs)) = scrubs (run init es0) + length fs) \<and>
         isGlowing (run init es) = (10 \<le> scrubs (run init es)) \<and>
         (isGlowing s \<longrightarrow> isGlowing (run s es'))"
proof -
  have gaps: "sorted_wrt (\<lambda>a b. a + 350 \<le> b) (map fst fs)"
    by (rule sorted_wrt_mono_rel [OF _ assms(1)]) auto
  have count: "scrubs (run (run init es0) (frames fs)) = scrubs (run init es0) + length fs"
    if "dragging (run init es0)" and "\<not> scrubCooldown (run init es0)" for es0
    using spaced_frames_all_fire [OF that(1) _ gaps assms(2) cooldown_inv_run [OF cooldown_inv_init]]
      that(2)
    by blast
  have down: "dragging (run init [(t0, PointerDown)])" "\<not> scrubCooldown (run init [(t0, PointerDown)])"
    "scrubs (run init [(t0, PointerDown)]) = 0"
    by (simp_all add: eval_defs)
  have split: "run init ((t0, PointerDown) # frames fs) = run (run init [(t0, PointerDown)]) (frames fs)"
    by simp
  have n: "scrubs (run init ((t0, PointerDown) # frames fs)) = length fs"
    unfolding split using count [OF down(1,2)] down(3) by simp
  have glow: "isGlowing (run init es) = (10 \<le> scrubs (run init es))" for es
    using glow_inv_run [OF glow_inv_init, of es] by (simp add: glow_inv_def)
  have "isGlowing (run init ((t0, PointerDown) # frames fs)) = (10 \<le> length fs)"
    unfolding glow n by (rule refl)
  then show ?thesis
    using n count glow glow_stays_run by blast
qed

text \<open>Ten scrubs, 400 ms apart: the counter is 10 and the crow glows.\<close>

theorem spaced_scrubs_counted_witness:
  "sorted_wrt (\<lambda>a b. a + 350 < b)
     (map fst [(0 :: real, (0 :: real, 0 :: real, 0 :: real)), (400, (0, 0, 0)), (800, (0, 0, 0)),
        (1200, (0, 0, 0)), (1600, (0, 0, 0)), (2000, (0, 0, 0)), (2400, (0, 0, 0)),
        (2800, (0, 0, 0)), (3200, (0, 0, 0)), (3600, (0, 0, 0))]) \<and>
   list_all (\<lambda>f. within_radius (newPos (snd f)))
     [(0 :: real, (0, 0, 0)), (400, (0, 0, 0)), (800, (0, 0, 0)),
        (1200, (0, 0, 0)), (1600, (0, 0, 0)), (2000, (0, 0, 0)), (2400, (0, 0, 0)),
        (2800, (0, 0, 0)), (3200, (0, 0, 0)), (3600, (0, 0, 0))] \<and>
   scrubs (run init ((0, PointerDown) # frames
     [(0, (0, 0, 0)), (400, (0, 0, 0)), (800, (0, 0, 0)),
        (1200, (0, 0, 0)), (1600, (0, 0, 0)), (2000, (0, 0, 0)), (2400, (0, 0, 0)),
        (2800, (0, 0, 0)), (3200, (0, 0, 0)), (3600, (0, 0, 0))])) = 10 \<and>
   isGlowing (run init ((0, PointerDown) # frames
     [(0, (0, 0, 0)), (400, (0, 0, 0)), (800, (0, 0, 0)),
        (1200, (0, 0, 0)), (1600, (0, 0, 0)), (2000, (0, 0, 0)), (2400, (0, 0, 0)),
        (2800, (0, 0, 0)), (3200, (0, 0, 0)), (3600, (0, 0, 0))]))"
proof -
  let ?fs = "[(0 :: real, (0 :: real, 0 :: real, 0 :: real)), (400, (0, 0, 0)), (800, (0, 0, 0)),
        (1200, (0, 0, 0)), (1600, (0, 0, 0)), (2000, (0, 0, 0)), (2400, (0, 0, 0)),
        (2800, (0, 0, 0)), (3200, (0, 0, 0)), (3600, (0, 0, 0))]"
  have h1: "sorted_wrt (\<lambda>a b. a + 350 < b) (map fst ?fs)"
    by simp
  have near: "within_radius (newPos (0, 0, 0))"
    by (simp add: newPos_def within_radius_iff)
  have h2: "\<forall>f \<in> set ?fs. within_radius (newPos (snd f))"
    using near by simp
  note th = spaced_scrubs_counted [OF h1 h2, of 0]
  have "scrubs (run init ((0, PointerDown) # frames ?fs)) = length ?fs"
    and "isGlowing (run init ((0, PointerDown) # frames ?fs)) = (10 \<le> length ?fs)"
    using th by blast+
  then have "scrubs (run init ((0, PointerDown) # frames ?fs)) = 10"
    and "isGlowing (run init ((0, PointerDown) # frames ?fs))"
    by simp_all
  moreover have "list_all (\<lambda>f. within_radius (newPos (snd f))) ?fs"
    using near by simp
  ultimately show ?thesis
    using h1 by blast
qed

text \<open>
  Claim C10. The counter has no upper bound: a frame of a drag within the radius, the
  cooldown released, adds one whatever the counter is, at 10 and above too; for every
  \<open>n\<close> the drag \<open>scrubbing n\<close>, a run in order of time, ends with the counter at
  \<open>n\<close>; and after twelve scrubs the HUD shows 12 of 10.
\<close>

theorem scrub_counter_unbounded:
  "(dragging s \<and> within_radius (newPos pos) \<and> \<not> scrubCooldown (run_timers now s) \<longrightarrow>
      scrubs (step now (Frame pos) s) = scrubs s + 1) \<and>
   sorted (map fst (scrubbing n)) \<and>
   scrubs (run init (scrubbing n)) = n \<and>
   scrub_counter (run init (scrubbing 12)) = ''Scrubs: 12 / 10''"
proof -
  have "scrubs (step now (Frame pos) s) = scrubs s + 1"
    if "dragging s" and "within_radius (newPos pos)" and "\<not> scrubCooldown (run_timers now s)"
    using that by (simp add: step_scrubs fires_def)
  moreover have "scrubs (run init (scrubbing 12)) = 12"
    using scrubbing_run [of 12] by simp
  then have "scrub_counter (run init (scrubbing 12)) = ''Scrubs: 12 / 10''"
    by (simp add: scrub_counter_def digit_char_def)
  ultimately show ?thesis
    using scrubbing_sorted [of n] scrubbing_run [of n] by blast
qed

text \<open>The eleventh scrub, after ten scrubs and the glow.\<close>

theorem scrub_counter_unbounded_witness:
  "dragging (run init (scrubbing 10)) \<and> within_radius (newPos (0, 0, 0)) \<and>
   \<not> scrubCooldown (run_timers 4000 (run init (scrubbing 10))) \<and>
   isGlowing (run init (scrubbing 10)) \<and>
   scrubs (run init (scrubbing 10)) = 10 \<and>
   scrubs (step 4000 (Frame (0, 0, 0)) (run init (scrubbing 10))) = 11"
proof -
  have ten: "scrubbing 10 = [(0, PointerDown), (0, Frame (0, 0, 0)), (400, Frame (0, 0, 0)),
     (800, Frame (0, 0, 0)), (1200, Frame (0, 0, 0)), (1600, Frame (0, 0, 0)),
     (2000, Frame (0, 0, 0)), (2400, Frame (0, 0, 0)), (2800, Frame (0, 0, 0)),
     (3200, Frame (0, 0, 0)), (3600, Frame (0, 0, 0))]"
    by (simp add: scrubbing_def frames_def upt_rec [of _ "numeral k" for k] upt_rec [of _ "Suc k" for k])
  have h: "dragging (run init (scrubbing 10))" "within_radius (newPos (0, 0, 0))"
    "\<not> scrubCooldown (run_timers 4000 (run init (scrubbing 10)))"
    "isGlowing (run init (scrubbing 10))" "scrubs (run init (scrubbing 10)) = 10"
    unfolding ten by (simp_all add: eval_defs)
  note th = scrub_counter_unbounded [of "run init (scrubbing 10)" "(0, 0, 0)" 4000 10]
  have "scrubs (step 4000 (Frame (0, 0, 0)) (run init (scrubbing 10))) =
      scrubs (run init (scrubbing 10)) + 1"
    using th h(1-3) by blast
  then show ?thesis
    using h by simp
qed

subsection \<open>The intro modal and the dead flag\<close>

lemma deaths_run_timers:
  "deaths (run_timers now s) = filter (\<lambda>d. now < d) (deaths s)"
  by (simp add: deaths_def due_def filter_map o_def conj_commute not_le)

lemma run_timers_dead_deaths:
  "dead (run_timers now s) = (dead s \<or> list_ex (\<lambda>d. d \<le> now) (deaths s))"
  by (force simp: run_timers_dead deaths_def list_ex_iff)

lemma useFrame_deaths [simp]: "deaths (useFrame_callback now pos s) = deaths s"
  by (cases "fires pos s") (simp_all add: deaths_def useFrame_fires useFrame_quiet)

lemma dispatch_deaths:
  "deaths (dispatch now e s) =
     (case e of Click ans \<Rightarrow> if showIntro s then deaths s @ [now + 800] else deaths s
      | _ \<Rightarrow> deaths s)"
  by (cases e)
     (simp_all,
      simp_all add: deaths_def onPointerDown_def onPointerUp_def onPointerLeave_def
        handleAnswer_def setTimeout_def)

lemma dispatch_showIntro:
  "showIntro (dispatch now e s) = (case e of Click ans \<Rightarrow> False | _ \<Rightarrow> showIntro s)"
  by (cases e)
     (simp_all add: onPointerDown_def onPointerUp_def onPointerLeave_def
        handleAnswer_def setTimeout_def)

lemma deaths_render [simp]: "deaths (render b s) = deaths s"
  by (simp add: deaths_def)

lemma step_deaths:
  "deaths (step now e s) =
     (case e of Click ans \<Rightarrow>
        if showIntro s then filter (\<lambda>d. now < d) (deaths s) @ [now + 800]
        else filter (\<lambda>d. now < d) (deaths s)
      | _ \<Rightarrow> filter (\<lambda>d. now < d) (deaths s))"
  by (simp add: step_def Let_def dispatch_deaths deaths_run_timers split: event.splits)

lemma step_showIntro:
  "showIntro (step now e s) = (case e of Click ans \<Rightarrow> False | _ \<Rightarrow> showIntro s)"
  by (simp add: step_def Let_def dispatch_showIntro split: event.splits)

lemma step_dead: "dead (step now e s) = (dead s \<or> list_ex (\<lambda>d. d \<le> now) (deaths s))"
  by (simp add: step_def Let_def run_timers_dead_deaths)

text \<open>The answer is not read: the two buttons give the same state.\<close>

lemma handleAnswer_any: "handleAnswer now a s = handleAnswer now b s"
  by (simp add: handleAnswer_def)

lemma step_Click_any: "step now (Click a) s = step now (Click b) s"
  unfolding step_def dispatch.simps handleAnswer_any [of now a _ b] by (rule refl)

text \<open>Once a timeout that sets the flag is pending, the flag is set by its time.\<close>

lemma dying_step:
  assumes "dying T s"
  shows "dying T (step now e s)"
proof (cases "dead (step now e s)")
  case True
  then show ?thesis
    by (simp add: dying_def)
next
  case False
  then have nd: "\<not> dead s" and late: "\<forall>d \<in> set (deaths s). now < d"
    by (auto simp: step_dead list_ex_iff not_le)
  with assms obtain d where "d \<in> set (deaths s)" and "d \<le> T"
    by (auto simp: dying_def list_ex_iff)
  then have "d \<in> set (deaths (step now e s))"
    using late by (cases e) (auto simp: step_deaths)
  then show ?thesis
    using \<open>d \<le> T\<close> by (auto simp: dying_def list_ex_iff)
qed

lemma dying_run: "dying T s \<Longrightarrow> dying T (run s es)"
  by (induction es arbitrary: s) (auto simp: dying_step)

lemma dying_dead:
  assumes "dying T s" and "T \<le> t"
  shows "dead (run_timers t s)" and "dead (step t e s)"
proof -
  have "dead s \<or> list_ex (\<lambda>d. d \<le> t) (deaths s)"
    using assms by (fastforce simp: dying_def list_ex_iff)
  then show "dead (run_timers t s)" and "dead (step t e s)"
    by (simp_all add: run_timers_dead_deaths step_dead)
qed

lemma click_dying:
  assumes "showIntro s"
  shows "dying (now + 800) (step now (Click ans) s)"
  using assms by (simp add: dying_def step_deaths)

text \<open>Before that time the flag stays as it is.\<close>

lemma alive_until_step:
  assumes "alive_until T s" and "now < T"
  shows "alive_until T (step now e s)"
proof -
  have keep: "filter (\<lambda>d. now < d) (deaths s) = deaths s"
    using assms by (auto simp: alive_until_def list_all_iff intro!: filter_True)
  have "\<not> list_ex (\<lambda>d. d \<le> now) (deaths s)"
    using assms by (fastforce simp: alive_until_def list_all_iff list_ex_iff)
  then show ?thesis
    using assms(1) keep
    by (cases e) (simp_all add: alive_until_def step_dead step_deaths step_showIntro)
qed

lemma alive_until_run:
  assumes "alive_until T s" and "list_all (\<lambda>te. fst te < T) es"
  shows "alive_until T (run s es)"
  using assms
  by (induction es arbitrary: s) (auto simp: alive_until_step)

lemma intro_inv_step:
  assumes "intro_inv s"
  shows "intro_inv (step now e s)"
  using assms
  by (cases e) (auto simp: intro_inv_def step_dead step_deaths step_showIntro)

lemma intro_inv_run: "intro_inv s \<Longrightarrow> intro_inv (run s es)"
  by (induction es arbitrary: s) (auto simp: intro_inv_step)

lemma intro_inv_init: "intro_inv init"
  by (simp add: intro_inv_def deaths_def init_def)

lemma click_alive:
  assumes "intro_inv s" and "showIntro s"
  shows "alive_until (now + 800) (step now (Click ans) s)"
  using assms
  by (simp add: alive_until_def intro_inv_def step_dead step_deaths step_showIntro)

text \<open>
  Claim C3. While the modal is open, in a state reached from the initial state, a click
  on either button closes the modal and leaves the dead flag unset; the flag stays unset
  through every event before 800 ms have passed, and it is set at every time from 800 ms
  after the click on, whatever events came between. The two buttons, and any two
  answers, give the same state.
\<close>

theorem answer_leads_to_dead:
  assumes "showIntro (run init es0)"
  shows "step now (Click ''yes'') (run init es0) = step now (Click ''no'') (run init es0) \<and>
         step now (Click a) (run init es0) = step now (Click b) (run init es0) \<and>
         \<not> showIntro (step now (Click a) (run init es0)) \<and>
         \<not> dead (step now (Click a) (run init es0)) \<and>
         (list_all (\<lambda>te. fst te < now + 800) es \<longrightarrow>
            \<not> dead (run (step now (Click a) (run init es0)) es)) \<and>
         (now + 800 \<le> t \<longrightarrow>
            dead (run_timers t (run (step now (Click a) (run init es0)) es)) \<and>
            dead (step t e (run (step now (Click a) (run init es0)) es)))"
proof -
  let ?s = "run init es0"
  have inv: "intro_inv ?s"
    by (rule intro_inv_run [OF intro_inv_init])
  have alive: "alive_until (now + 800) (step now (Click a) ?s)"
    by (rule click_alive [OF inv assms])
  have early: "\<not> dead (run (step now (Click a) ?s) es)"
    if "list_all (\<lambda>te. fst te < now + 800) es"
    using alive_until_run [OF alive that] by (simp add: alive_until_def)
  have "dying (now + 800) (run (step now (Click a) ?s) es)"
    by (rule dying_run [OF click_dying [OF assms]])
  then have late: "dead (run_timers t (run (step now (Click a) ?s) es)) \<and>
      dead (step t e (run (step now (Click a) ?s) es))" if "now + 800 \<le> t"
    using dying_dead that by blast
  have same: "step now (Click x) ?s = step now (Click y) ?s" for x y
    by (rule step_Click_any)
  show ?thesis
    using same [of "''yes''" "''no''"] same [of a b] alive early late
    unfolding alive_until_def by blast
qed

text \<open>
  A click at 100 ms: the flag is unset after a frame at 500 ms and set at 900 ms, for
  both answers.
\<close>

theorem answer_leads_to_dead_witness:
  "showIntro (run init []) \<and>
   step 100 (Click ''yes'') (run init []) = step 100 (Click ''no'') (run init []) \<and>
   list_all (\<lambda>te. fst te < 100 + 800) [(500 :: real, Frame (0, 0, 0))] \<and>
   \<not> dead (run (step 100 (Click ''yes'') (run init [])) [(500, Frame (0, 0, 0))]) \<and>
   (100 :: real) + 800 \<le> 900 \<and>
   dead (run_timers 900 (run (step 100 (Click ''yes'') (run init [])) [(500, Frame (0, 0, 0))])) \<and>
   dead (run_timers 900 (run (step 100 (Click ''no'') (run init [])) [(500, Frame (0, 0, 0))]))"
proof -
  have h: "showIntro (run init [])"
    by (simp add: init_def)
  have e: "list_all (\<lambda>te. fst te < 100 + 800) [(500 :: real, Frame (0, 0, 0))]"
    and l: "(100 :: real) + 800 \<le> 900"
    by simp_all
  note yes = answer_leads_to_dead [OF h, of 100 "''yes''" "''no''" "[(500, Frame (0, 0, 0))]" 900]
  note no = answer_leads_to_dead [OF h, of 100 "''no''" "''yes''" "[(500, Frame (0, 0, 0))]" 900]
  have "step 100 (Click ''yes'') (run init []) = step 100 (Click ''no'') (run init [])"
    using yes by blast
  moreover have "\<not> dead (run (step 100 (Click ''yes'') (run init [])) [(500, Frame (0, 0, 0))])"
    using yes e by blast
  moreover have "dead (run_timers 900 (run (step 100 (Click ''yes'') (run init [])) [(500, Frame (0, 0, 0))]))"
    using yes l by blast
  moreover have "dead (run_timers 900 (run (step 100 (Click ''no'') (run init [])) [(500, Frame (0, 0, 0))]))"
    using no l by blast
  ultimately show ?thesis
    using h e l by blast
qed

subsection \<open>Models that do not load\<close>

lemma try_catch_Inl [simp]: "try_catch (Inl e) handler = handler e"
  by (simp add: try_catch_def)

lemma try_catch_total:
  assumes "\<And>e. \<exists>v. handler e = Inr v"
  shows "\<exists>v. try_catch body handler = Inr v"
proof (cases body)
  case (Inl e)
  then show ?thesis
    using assms [of e] by simp
next
  case (Inr v)
  then show ?thesis
    by (simp add: try_catch_def)
qed

text \<open>
  Claim C5. When \<^verbatim>\<open>useGLTF\<close> throws for a path, be it the promise of a load that never
  finishes or the error of a load that failed, the component returns its placeholder
  geometry: \<^verbatim>\<open>ModelOrFallback\<close> the fallback it was given, in the scene the bathtub of
  one cylinder; \<^verbatim>\<open>CrowModel\<close> the crow of lines 37-64, a body, a beak and an eye of
  two spheres, blue and with an eyelash when it glows. Whatever the loader does, neither
  component lets anything thrown escape.
\<close>

theorem missing_model_renders_placeholder:
  "(useGLTF ld path = Inl x \<longrightarrow> ModelOrFallback ld path fallback pos = Inr fallback) \<and>
   (useGLTF ld ''/models/crow.glb'' = Inl x \<longrightarrow>
      CrowModel ld pos glowing =
        Inr (Group pos
          ([Mesh (0, 0, 0) (0, 0, 0) (sphereGeometry 0.6 32 32)
              (if glowing then ''#1e90ff'' else ''#222''),
            Mesh (0.6, - 0.05, 0.1) (0, 0, - 0.4) (coneGeometry 0.18 0.5 16) ''#ffb84d'',
            Mesh (0.25, 0.15, 0.45) (0, 0, 0) (sphereGeometry 0.08 12 12) ''white'',
            Mesh (0.32, 0.15, 0.48) (0, 0, 0) (sphereGeometry 0.04 12 12) ''black'']
           @ (if glowing
              then [Group (0.25, 0.24, 0.45)
                      [Mesh (0, 0, 0) (0, 0, - 0.5) (planeGeometry 0.18 0.05) ''#000'']]
              else [])))) \<and>
   (useGLTF ld ''/models/bathtub.glb'' = Inl x \<and> useGLTF ld ''/models/crow.glb'' = Inl y \<longrightarrow>
      Scene_models ld glowing =
        [Inr (Group (0, - 1.1, 0)
           [Mesh (0, 0, 0) (0, 0, 0) (cylinderGeometry 2.2 2.2 0.6 32) ''#6d87b0ff'']),
         Inr (Group (0, - 0.6, 0)
          ([Mesh (0, 0, 0) (0, 0, 0) (sphereGeometry 0.6 32 32)
              (if glowing then ''#1e90ff'' else ''#222''),
            Mesh (0.6, - 0.05, 0.1) (0, 0, - 0.4) (coneGeometry 0.18 0.5 16) ''#ffb84d'',
            Mesh (0.25, 0.15, 0.45) (0, 0, 0) (sphereGeometry 0.08 12 12) ''white'',
            Mesh (0.32, 0.15, 0.48) (0, 0, 0) (sphereGeometry 0.04 12 12) ''black'']
           @ (if glowing
              then [Group (0.25, 0.24, 0.45)
                      [Mesh (0, 0, 0) (0, 0, - 0.5) (planeGeometry 0.18 0.05) ''#000'']]
              else [])))]) \<and>
   (\<exists>v. ModelOrFallback ld path fallback pos = Inr v) \<and>
   (\<exists>v. CrowModel ld pos glowing = Inr v)"
proof -
  have a: "ModelOrFallback ld p fb q = Inr fb" if "useGLTF ld p = Inl e" for p fb q e
    using that by (simp add: ModelOrFallback_def)
  have b: "CrowModel ld q g = Inr (CrowPlaceholder q g)"
    if "useGLTF ld ''/models/crow.glb'' = Inl e" for q g e
    using that by (simp add: CrowModel_def)
  have c: "\<exists>v. ModelOrFallback ld path fallback pos = Inr v"
    unfolding ModelOrFallback_def by (rule try_catch_total) simp
  have d: "\<exists>v. CrowModel ld pos glowing = Inr v"
    unfolding CrowModel_def by (rule try_catch_total) simp
  show ?thesis
    using a b c d
    unfolding Scene_models_def CrowPlaceholder_def BathtubPlaceholder_def by simp
qed

text \<open>
  A loader for which the bathtub fails to load and the crow is still pending: the scene
  holds the cylinder and the glowing crow of spheres.
\<close>

theorem missing_model_renders_placeholder_witness:
  "useGLTF (\<lambda>p. if p = ''/models/crow.glb'' then Inl PendingPromise else Inl LoadError)
     ''/models/bathtub.glb'' = (Inl LoadError :: thrown + unit) \<and>
   useGLTF (\<lambda>p. if p = ''/models/crow.glb'' then Inl PendingPromise else Inl LoadError)
     ''/models/crow.glb'' = (Inl PendingPromise :: thrown + unit) \<and>
   Scene_models (\<lambda>p. if p = ''/models/crow.glb'' then Inl PendingPromise else Inl LoadError) True =
     [Inr (Group (0, - 1.1, 0)
        [Mesh (0, 0, 0) (0, 0, 0) (cylinderGeometry 2.2 2.2 0.6 32) ''#6d87b0ff'']),
      Inr (Group (0, - 0.6, 0)
        [Mesh (0, 0, 0) (0, 0, 0) (sphereGeometry 0.6 32 32) ''#1e90ff'',
         Mesh (0.6, - 0.05, 0.1) (0, 0, - 0.4) (coneGeometry 0.18 0.5 16) ''#ffb84d'',
         Mesh (0.25, 0.15, 0.45) (0, 0, 0) (sphereGeometry 0.08 12 12) ''white'',
         Mesh (0.32, 0.15, 0.48) (0, 0, 0) (sphereGeometry 0.04 12 12) ''black'',
         Group (0.25, 0.24, 0.45)
           [Mesh (0, 0, 0) (0, 0, - 0.5) (planeGeometry 0.18 0.05) ''#000'']] :: unit element)] \<and>
   CrowModel (\<lambda>p. if p = ''/models/crow.glb'' then Inl PendingPromise else Inl LoadError)
     (0, - 0.6, 0) False =
     Inr (Group (0, - 0.6, 0)
        [Mesh (0, 0, 0) (0, 0, 0) (sphereGeometry 0.6 32 32) ''#222'',
         Mesh (0.6, - 0.05, 0.1) (0, 0, - 0.4) (coneGeometry 0.18 0.5 16) ''#ffb84d'',
         Mesh (0.25, 0.15, 0.45) (0, 0, 0) (sphereGeometry 0.08 12 12) ''white'',
         Mesh (0.32, 0.15, 0.48) (0, 0, 0) (sphereGeometry 0.04 12 12) ''black''] :: unit element)"
proof -
  let ?ld = "(\<lambda>p. if p = ''/models/crow.glb'' then Inl PendingPromise else Inl LoadError)
      :: unit loader"
  have h: "useGLTF ?ld ''/models/bathtub.glb'' = Inl LoadError"
    "useGLTF ?ld ''/models/crow.glb'' = Inl PendingPromise"
    by (simp_all add: useGLTF_def)
  note lit = missing_model_renders_placeholder [of ?ld "''/models/bathtub.glb''" LoadError
      BathtubPlaceholder "(0, - 1.1, 0)" True PendingPromise]
  note dark = missing_model_renders_placeholder [of ?ld "''/models/crow.glb''" PendingPromise
      BathtubPlaceholder "(0, - 0.6, 0)" False PendingPromise]
  have "Scene_models ?ld True =
     [Inr (Group (0, - 1.1, 0)
        [Mesh (0, 0, 0) (0, 0, 0) (cylinderGeometry 2.2 2.2 0.6 32) ''#6d87b0ff'']),
      Inr (Group (0, - 0.6, 0)
        ([Mesh (0, 0, 0) (0, 0, 0) (sphereGeometry 0.6 32 32) (if True then ''#1e90ff'' else ''#222''),
          Mesh (0.6, - 0.05, 0.1) (0, 0, - 0.4) (coneGeometry 0.18 0.5 16) ''#ffb84d'',
          Mesh (0.25, 0.15, 0.45) (0, 0, 0) (sphereGeometry 0.08 12 12) ''white'',
          Mesh (0.32, 0.15, 0.48) (0, 0, 0) (sphereGeometry 0.04 12 12) ''black'']
         @ (if True
            then [Group (0.25, 0.24, 0.45)
                    [Mesh (0, 0, 0) (0, 0, - 0.5) (planeGeometry 0.18 0.05) ''#000'']]
            else [])))]"
    using lit h by blast
  moreover have "CrowModel ?ld (0, - 0.6, 0) False =
     Inr (Group (0, - 0.6, 0)
        ([Mesh (0, 0, 0) (0, 0, 0) (sphereGeometry 0.6 32 32) (if False then ''#1e90ff'' else ''#222''),
          Mesh (0.6, - 0.05, 0.1) (0, 0, - 0.4) (coneGeometry 0.18 0.5 16) ''#ffb84d'',
          Mesh (0.25, 0.15, 0.45) (0, 0, 0) (sphereGeometry 0.08 12 12) ''white'',
          Mesh (0.32, 0.15, 0.48) (0, 0, 0) (sphereGeometry 0.04 12 12) ''black'']
         @ (if False
            then [Group (0.25, 0.24, 0.45)
                    [Mesh (0, 0, 0) (0, 0, - 0.5) (planeGeometry 0.18 0.05) ''#000'']]
            else [])))"
    using dark h by blast
  ultimately show ?thesis
    using h by simp
qed

end
